theory Spec2Isabelle
  imports Complex_Main
begin

section \<open>Strings and JavaScript values\<close>

text \<open>
  Strings of the program are modelled as \<^typ>\<open>string\<close>. The texts the program handles (FEN
  records, UCI commands and engine replies) are ASCII, one \<^typ>\<open>char\<close> per character; the
  operations below compare characters with ASCII letters, digits and separators only, so
  the bytes of any other character count as characters that match none of them.
  A value that JavaScript leaves \<^verbatim>\<open>undefined\<close> or \<^verbatim>\<open>null\<close> is \<open>None\<close>.
\<close>

datatype js_error = TypeError

text \<open>\<^verbatim>\<open>s.split(c)\<close> for a one-character separator: the result is never empty.\<close>

fun split_on :: "char \<Rightarrow> string \<Rightarrow> string list" where
  "split_on c [] = [[]]"
| "split_on c (x # xs) =
     (if x = c then [] # split_on c xs
      else (case split_on c xs of
              [] \<Rightarrow> [[x]]
            | w # ws \<Rightarrow> (x # w) # ws))"

text \<open>\<^verbatim>\<open>xs[i]\<close>: an index past the end reads \<^verbatim>\<open>undefined\<close>.\<close>

fun js_index :: "'a list \<Rightarrow> nat \<Rightarrow> 'a option" where
  "js_index [] i = None"
| "js_index (x # xs) 0 = Some x"
| "js_index (x # xs) (Suc i) = js_index xs i"

section \<open>Material evaluation\<close>

text \<open>
  Scores are JavaScript numbers. Every table entry below is a multiple of \<open>1/4\<close> of
  magnitude at most 9, and a string that an engine can hold has fewer than \<open>2^32\<close>
  characters: each partial sum over a string is a multiple of \<open>1/4\<close> of magnitude below
  \<open>2^36\<close>, which a double represents exactly. The floating-point additions are therefore
  exact, and the scores are modelled as rationals.
\<close>

text \<open>The table \<^verbatim>\<open>values\<close> of \<^verbatim>\<open>StockfishEngine.fallbackEval\<close>.\<close>

definition fallback_values :: "char \<Rightarrow> rat option" where
  "fallback_values ch =
     (if ch = CHR ''P'' then Some 1 else if ch = CHR ''N'' then Some 3
      else if ch = CHR ''B'' then Some (13 / 4) else if ch = CHR ''R'' then Some 5
      else if ch = CHR ''Q'' then Some 9 else if ch = CHR ''K'' then Some 0
      else if ch = CHR ''p'' then Some (- 1) else if ch = CHR ''n'' then Some (- 3)
      else if ch = CHR ''b'' then Some (- (13 / 4)) else if ch = CHR ''r'' then Some (- 5)
      else if ch = CHR ''q'' then Some (- 9) else if ch = CHR ''k'' then Some 0
      else None)"

text \<open>The table \<^verbatim>\<open>pieces\<close> of \<^verbatim>\<open>simpleEval\<close>.\<close>

definition simple_pieces :: "char \<Rightarrow> rat option" where
  "simple_pieces ch =
     (if ch = CHR ''P'' then Some 1 else if ch = CHR ''N'' then Some 3
      else if ch = CHR ''B'' then Some 3 else if ch = CHR ''R'' then Some 5
      else if ch = CHR ''Q'' then Some 9 else if ch = CHR ''K'' then Some 0
      else if ch = CHR ''p'' then Some (- 1) else if ch = CHR ''n'' then Some (- 3)
      else if ch = CHR ''b'' then Some (- 3) else if ch = CHR ''r'' then Some (- 5)
      else if ch = CHR ''q'' then Some (- 9) else if ch = CHR ''k'' then Some 0
      else None)"

text \<open>
  The loop \<^verbatim>\<open>for (const ch of ...) if (table[ch] !== undefined) score += table[ch]\<close>
  shared by both evaluators, with the running score as accumulator.
\<close>

fun score_loop :: "(char \<Rightarrow> rat option) \<Rightarrow> string \<Rightarrow> rat \<Rightarrow> rat" where
  "score_loop table [] score = score"
| "score_loop table (ch # rest) score =
     (case table ch of
        None \<Rightarrow> score_loop table rest score
      | Some v \<Rightarrow> score_loop table rest (score + v))"

text \<open>
  Both evaluators iterate over \<^verbatim>\<open>fen.split(' ')[0]\<close>; iterating over \<^verbatim>\<open>undefined\<close>
  would raise a \<^verbatim>\<open>TypeError\<close>.
\<close>

definition fallbackEval :: "string \<Rightarrow> js_error + rat" where
  "fallbackEval fen =
     (case js_index (split_on CHR '' '' fen) 0 of
        None \<Rightarrow> Inl TypeError
      | Some placement \<Rightarrow> Inr (score_loop fallback_values placement 0))"

definition simpleEval :: "string \<Rightarrow> js_error + rat" where
  "simpleEval fen =
     (case js_index (split_on CHR '' '' fen) 0 of
        None \<Rightarrow> Inl TypeError
      | Some placement \<Rightarrow> Inr (score_loop simple_pieces placement 0))"

subsection \<open>The evaluation as the specification words it\<close>

datatype kind = Pawn | Knight | Bishop | Rook | Queen | King

datatype color = White | Black

definition piece_value :: "kind \<Rightarrow> rat" where
  "piece_value k =
     (case k of Pawn \<Rightarrow> 1 | Knight \<Rightarrow> 3 | Bishop \<Rightarrow> 13 / 4 | Rook \<Rightarrow> 5 | Queen \<Rightarrow> 9 | King \<Rightarrow> 0)"

text \<open>FEN piece letters: upper case is White, lower case is Black.\<close>

definition piece_of_letter :: "char \<Rightarrow> (color \<times> kind) option" where
  "piece_of_letter ch =
     (if ch = CHR ''P'' then Some (White, Pawn) else if ch = CHR ''N'' then Some (White, Knight)
      else if ch = CHR ''B'' then Some (White, Bishop) else if ch = CHR ''R'' then Some (White, Rook)
      else if ch = CHR ''Q'' then Some (White, Queen) else if ch = CHR ''K'' then Some (White, King)
      else if ch = CHR ''p'' then Some (Black, Pawn) else if ch = CHR ''n'' then Some (Black, Knight)
      else if ch = CHR ''b'' then Some (Black, Bishop) else if ch = CHR ''r'' then Some (Black, Rook)
      else if ch = CHR ''q'' then Some (Black, Queen) else if ch = CHR ''k'' then Some (Black, King)
      else None)"

text \<open>The placement field of a FEN record is the text before its first blank.\<close>

definition placement_field :: "string \<Rightarrow> string" where
  "placement_field fen = takeWhile (\<lambda>ch. ch \<noteq> CHR '' '') fen"

definition signed_value :: "char \<Rightarrow> rat" where
  "signed_value ch =
     (case piece_of_letter ch of
        None \<Rightarrow> 0
      | Some (White, k) \<Rightarrow> piece_value k
      | Some (Black, k) \<Rightarrow> - piece_value k)"

definition material_sum :: "string \<Rightarrow> rat" where
  "material_sum fen = sum_list (map signed_value (placement_field fen))"

section \<open>More string operations\<close>

text \<open>\<^verbatim>\<open>s.startsWith(p)\<close> and \<^verbatim>\<open>s.includes(p)\<close>.\<close>

definition starts_with :: "string \<Rightarrow> string \<Rightarrow> bool" where
  "starts_with p s = (take (length p) s = p)"

fun js_includes :: "string \<Rightarrow> string \<Rightarrow> bool" where
  "js_includes p [] = (p = [])"
| "js_includes p (x # xs) = (starts_with p (x # xs) \<or> js_includes p xs)"

text \<open>A string used as a condition: \<^verbatim>\<open>undefined\<close>, \<^verbatim>\<open>null\<close> and \<^verbatim>\<open>''\<close> are falsy.\<close>

fun truthy :: "string option \<Rightarrow> bool" where
  "truthy None = False"
| "truthy (Some s) = (s \<noteq> [])"

definition is_digit :: "char \<Rightarrow> bool" where
  "is_digit ch = (48 \<le> (of_char ch :: nat) \<and> (of_char ch :: nat) \<le> 57)"

text \<open>\<^verbatim>\<open>toUpperCase\<close> on ASCII text: the letters a to z move to A to Z.\<close>

definition upper_char :: "char \<Rightarrow> char" where
  "upper_char ch =
     (if 97 \<le> (of_char ch :: nat) \<and> (of_char ch :: nat) \<le> 122
      then char_of ((of_char ch :: nat) - 32) else ch)"

definition toUpperCase :: "string \<Rightarrow> string" where
  "toUpperCase s = map upper_char s"

text \<open>An integer inside a template literal prints in decimal.\<close>

fun show_nat :: "nat \<Rightarrow> string" where
  "show_nat n =
     (if n < 10 then [char_of (48 + n)]
      else show_nat (n div 10) @ [char_of (48 + n mod 10)])"

definition show_int :: "int \<Rightarrow> string" where
  "show_int i = (if i < 0 then CHR ''-'' # show_nat (nat (- i)) else show_nat (nat i))"

section \<open>The shuffled starting position\<close>

text \<open>
  \<^verbatim>\<open>Math.floor(Math.random() * n)\<close> for a draw \<open>u\<close>; \<^verbatim>\<open>Math.random()\<close> returns a number
  \<open>0 \<le> u < 1\<close>. The product is taken exactly. The rounding of the double product can
  move a draw to the neighbouring index, but for the lengths that occur (at most 6) not
  out of the range from 0 to \<open>n - 1\<close>, so the same indices arise.
\<close>

definition random_index :: "rat \<Rightarrow> nat \<Rightarrow> int" where
  "random_index u n = \<lfloor>u * of_nat n\<rfloor>"

text \<open>Reading an array at a number: outside the array the value is \<^verbatim>\<open>undefined\<close>.\<close>

definition js_at :: "'a list \<Rightarrow> int \<Rightarrow> 'a option" where
  "js_at xs i = (if 0 \<le> i \<and> nat i < length xs then Some (xs ! nat i) else None)"

text \<open>
  \<^verbatim>\<open>backRank[i] = v\<close>. The index is a value read from an array, so it may be
  \<^verbatim>\<open>undefined\<close>: the assignment then sets a property named "undefined" and no element
  changes. An index past the end would lengthen the array; every index the program stores
  comes from a list of the indices 0 to 7 of the array itself.
\<close>

definition js_assign :: "string list \<Rightarrow> int option \<Rightarrow> string \<Rightarrow> string list" where
  "js_assign backRank idx v =
     (case idx of
        None \<Rightarrow> backRank
      | Some i \<Rightarrow>
          if i < 0 then backRank
          else if nat i < length backRank then backRank[nat i := v]
          else backRank @ replicate (nat i - length backRank) [] @ [v])"

text \<open>\<^verbatim>\<open>backRank.map((p, i) => p === '' ? i : -1).filter(i => i >= 0)\<close>\<close>

definition empty_squares :: "string list \<Rightarrow> int list" where
  "empty_squares backRank =
     filter (\<lambda>i. i \<ge> 0)
       (map (\<lambda>(p, i). if p = [] then int i else - 1) (zip backRank [0..<length backRank]))"

text \<open>
  \<^verbatim>\<open>random960Position\<close>, with the five calls of \<^verbatim>\<open>Math.random()\<close> as arguments in the order
  in which they are made.
\<close>

definition random960Position :: "rat \<Rightarrow> rat \<Rightarrow> rat \<Rightarrow> rat \<Rightarrow> rat \<Rightarrow> string" where
  "random960Position u1 u2 u3 u4 u5 =
     (let backRank0 = replicate 8 [];
          darkSquares = [0, 2, 4, 6];
          lightSquares = [1, 3, 5, 7];
          darkBishop = js_at darkSquares (random_index u1 (length darkSquares));
          lightBishop = js_at lightSquares (random_index u2 (length lightSquares));
          backRank1 = js_assign backRank0 darkBishop ''b'';
          backRank2 = js_assign backRank1 lightBishop ''b'';
          empty = empty_squares backRank2;
          queenPos = js_at empty (random_index u3 (length empty));
          backRank3 = js_assign backRank2 queenPos ''q'';
          remaining = empty_squares backRank3;
          knight1 = js_at remaining (random_index u4 (length remaining));
          backRank4 = js_assign backRank3 knight1 ''n'';
          remainingAfterN1 = empty_squares backRank4;
          knight2 = js_at remainingAfterN1 (random_index u5 (length remainingAfterN1));
          backRank5 = js_assign backRank4 knight2 ''n'';
          last3 = sort (empty_squares backRank5);
          backRank6 =
            (if length last3 = 3
             then js_assign (js_assign (js_assign backRank5 (js_at last3 0) ''r'')
                    (js_at last3 1) ''k'') (js_at last3 2) ''r''
             else backRank5)
      in concat backRank6 @ ''/pppppppp/8/8/8/8/PPPPPPPP/'' @ toUpperCase (concat backRank6)
           @ '' w KQkq - 0 1'')"

subsection \<open>Reading a back rank out of a FEN record\<close>

text \<open>
  The placement field lists the ranks 8 down to 1, separated by \<open>/\<close>; within a rank a digit
  stands for that many empty squares and a letter for a piece. Files are counted from 0
  (the a-file); on one rank two squares have opposite colours exactly when their files
  have different parity.
\<close>

definition rank_squares :: "string \<Rightarrow> char option list" where
  "rank_squares rank =
     concat (map (\<lambda>ch. if is_digit ch then replicate ((of_char ch :: nat) - 48) None
                        else [Some ch]) rank)"

definition fen_rank :: "string \<Rightarrow> nat \<Rightarrow> char option list" where
  "fen_rank fen i =
     (case js_index (split_on CHR ''/'' (placement_field fen)) i of
        None \<Rightarrow> []
      | Some rank \<Rightarrow> rank_squares rank)"

definition files_of :: "char \<Rightarrow> char option list \<Rightarrow> nat list" where
  "files_of ch squares = filter (\<lambda>i. squares ! i = Some ch) [0..<length squares]"

definition king_between_rooks :: "char \<Rightarrow> char \<Rightarrow> char option list \<Rightarrow> bool" where
  "king_between_rooks king rook squares =
     (case (files_of king squares, files_of rook squares) of
        ([k], [a, b]) \<Rightarrow> a < k \<and> k < b
      | _ \<Rightarrow> False)"

definition bishops_opposite :: "char \<Rightarrow> char option list \<Rightarrow> bool" where
  "bishops_opposite bishop squares =
     (case files_of bishop squares of
        [a, b] \<Rightarrow> even a \<noteq> even b
      | _ \<Rightarrow> False)"

text \<open>Black's back rank is the first rank listed (rank 8) and White's the last (rank 1).\<close>

definition back_ranks_ok :: "string \<Rightarrow> bool" where
  "back_ranks_ok fen =
     (length (fen_rank fen 0) = 8 \<and> length (fen_rank fen 7) = 8
      \<and> king_between_rooks CHR ''k'' CHR ''r'' (fen_rank fen 0)
      \<and> bishops_opposite CHR ''b'' (fen_rank fen 0)
      \<and> king_between_rooks CHR ''K'' CHR ''R'' (fen_rank fen 7)
      \<and> bishops_opposite CHR ''B'' (fen_rank fen 7))"

section \<open>The engine wrapper of \<^verbatim>\<open>lib/stockfish.ts\<close>\<close>

text \<open>
  The fields of \<^verbatim>\<open>AnalysisResult\<close> carry the prefix \<open>a_\<close>. Depths, skill levels and mate
  distances are integers. \<^verbatim>\<open>a_score\<close> is a number of pawns: the quotient of the reported
  centipawns by 100 is kept as the exact rational (no property below reads it).
\<close>

record AnalysisResult =
  a_depth :: int
  a_score :: "rat option"
  a_mate :: "int option"
  a_bestMove :: "string option"
  a_pv :: string

text \<open>
  A promise is pending until it is resolved for the first time; later calls of its
  \<^verbatim>\<open>resolve\<close> change nothing.
\<close>

datatype promise = Pending | Resolved "string option"

text \<open>
  The only function ever stored in \<^verbatim>\<open>onBestMove\<close> is the closure that \<^verbatim>\<open>findBestMove\<close>
  builds: it puts the previous callback back and resolves its own promise with the move.
\<close>

datatype best_callback = ResolveAndRestore nat "best_callback option"

text \<open>
  The state of a \<^verbatim>\<open>StockfishEngine\<close> and of what it acts on. \<^verbatim>\<open>worker\<close> is \<open>None\<close> for
  \<^verbatim>\<open>null\<close>, and otherwise holds the commands posted to the worker so far, oldest first.
  The analysis callback is an opaque value \<open>'cb\<close>; \<open>analysisCalls\<close> and \<open>bestMoveCalls\<close>
  record each invocation of a callback with its argument, \<open>promises\<close> holds the promises
  returned by \<^verbatim>\<open>findBestMove\<close> in the order of creation, and \<open>timers\<close> the pending
  \<^verbatim>\<open>setTimeout\<close> calls as pairs of a delay in milliseconds and the promise they resolve
  with \<^verbatim>\<open>null\<close>.
\<close>

record 'cb engine =
  worker :: "string list option"
  onAnalysis :: "'cb option"
  onBestMove :: "best_callback option"
  ready :: bool
  currentAnalysis :: AnalysisResult
  analysisCalls :: "('cb \<times> AnalysisResult) list"
  bestMoveCalls :: "string list"
  promises :: "promise list"
  timers :: "(nat \<times> nat) list"

definition send :: "string \<Rightarrow> 'cb engine \<Rightarrow> 'cb engine" where
  "send cmd e =
     (case worker e of
        None \<Rightarrow> e
      | Some posted \<Rightarrow> e\<lparr>worker := Some (posted @ [cmd])\<rparr>)"

definition resolve :: "nat \<Rightarrow> string option \<Rightarrow> 'cb engine \<Rightarrow> 'cb engine" where
  "resolve k v e =
     (if k < length (promises e) \<and> promises e ! k = Pending
      then e\<lparr>promises := (promises e)[k := Resolved v]\<rparr> else e)"

text \<open>\<^verbatim>\<open>this.onAnalysis?.(result)\<close> and \<^verbatim>\<open>this.onBestMove?.(move)\<close>.\<close>

definition call_onAnalysis :: "AnalysisResult \<Rightarrow> 'cb engine \<Rightarrow> 'cb engine" where
  "call_onAnalysis result e =
     (case onAnalysis e of
        None \<Rightarrow> e
      | Some cb \<Rightarrow> e\<lparr>analysisCalls := analysisCalls e @ [(cb, result)]\<rparr>)"

definition call_onBestMove :: "string \<Rightarrow> 'cb engine \<Rightarrow> 'cb engine" where
  "call_onBestMove move e =
     (case onBestMove e of
        None \<Rightarrow> e
      | Some (ResolveAndRestore k prevCallback) \<Rightarrow>
          resolve k (Some move)
            (e\<lparr>bestMoveCalls := bestMoveCalls e @ [move], onBestMove := prevCallback\<rparr>))"

subsection \<open>The regular expressions of \<^verbatim>\<open>handleMessage\<close>\<close>

text \<open>
  Each expression is a literal text followed by one group. \<open>regex_search\<close> tries the
  positions of the message from left to right, as an unanchored match does, and returns
  the group of the first position that matches.
\<close>

definition digits_group :: "string \<Rightarrow> string option" where
  "digits_group s = (if takeWhile is_digit s = [] then None else Some (takeWhile is_digit s))"

definition signed_digits_group :: "string \<Rightarrow> string option" where
  "signed_digits_group s =
     (case s of
        [] \<Rightarrow> None
      | ch # rest \<Rightarrow>
          if ch = CHR ''-'' then map_option (\<lambda>ds. CHR ''-'' # ds) (digits_group rest)
          else digits_group s)"

text \<open>
  \<^verbatim>\<open>(.+)\<close>: as many characters as possible, none of them a line terminator (of the
  ASCII characters, line feed and carriage return).
\<close>

definition line_group :: "string \<Rightarrow> string option" where
  "line_group s =
     (let not_terminator = (\<lambda>ch. ch \<noteq> CHR 0x0A \<and> ch \<noteq> CHR 0x0D)
      in if takeWhile not_terminator s = [] then None else Some (takeWhile not_terminator s))"

fun regex_search :: "string \<Rightarrow> (string \<Rightarrow> string option) \<Rightarrow> string \<Rightarrow> string option" where
  "regex_search lit grp [] = (if lit = [] then grp [] else None)"
| "regex_search lit grp (x # xs) =
     (case (if starts_with lit (x # xs) then grp (drop (length lit) (x # xs)) else None) of
        Some g \<Rightarrow> Some g
      | None \<Rightarrow> regex_search lit grp xs)"

text \<open>\<^verbatim>\<open>parseInt\<close> on a text of the shape \<^verbatim>\<open>-?\d+\<close>.\<close>

definition parse_digits :: "string \<Rightarrow> int" where
  "parse_digits ds = foldl (\<lambda>n ch. 10 * n + (int (of_char ch) - 48)) 0 ds"

definition parseInt :: "string \<Rightarrow> int" where
  "parseInt s =
     (case s of
        [] \<Rightarrow> 0
      | ch # rest \<Rightarrow> if ch = CHR ''-'' then - parse_digits rest else parse_digits s)"

subsection \<open>The methods\<close>

text \<open>
  \<^verbatim>\<open>handleMessage\<close> has two parts, one after the other: the part for \<^verbatim>\<open>info\<close> lines
  and the part for \<^verbatim>\<open>bestmove\<close> lines.
\<close>

definition parse_info :: "string \<Rightarrow> 'cb engine \<Rightarrow> 'cb engine" where
  "parse_info msg e =
     (if starts_with ''info'' msg \<and> js_includes ''depth'' msg then
        (let depthMatch = regex_search ''depth '' digits_group msg;
             scoreMatch = regex_search ''score cp '' signed_digits_group msg;
             mateMatch = regex_search ''score mate '' signed_digits_group msg;
             pvMatch = regex_search '' pv '' line_group msg
         in case depthMatch of
              None \<Rightarrow> e
            | Some d \<Rightarrow>
                (let result =
                   \<lparr>a_depth = parseInt d,
                    a_score = map_option (\<lambda>t. of_int (parseInt t) / 100) scoreMatch,
                    a_mate = map_option parseInt mateMatch,
                    a_bestMove = (case pvMatch of
                                    None \<Rightarrow> None
                                  | Some line \<Rightarrow> js_index (split_on CHR '' '' line) 0),
                    a_pv = (case pvMatch of None \<Rightarrow> [] | Some line \<Rightarrow> line)\<rparr>
                 in call_onAnalysis result (e\<lparr>currentAnalysis := result\<rparr>)))
      else e)"

definition parse_bestmove :: "string \<Rightarrow> 'cb engine \<Rightarrow> 'cb engine" where
  "parse_bestmove msg e =
     (if starts_with ''bestmove'' msg then
        (let move = js_index (split_on CHR '' '' msg) 1
         in case move of
              None \<Rightarrow> e
            | Some m \<Rightarrow> if truthy move \<and> m \<noteq> ''(none)'' then call_onBestMove m e else e)
      else e)"

definition handleMessage :: "string \<Rightarrow> 'cb engine \<Rightarrow> 'cb engine" where
  "handleMessage msg e = parse_bestmove msg (parse_info msg e)"

definition setSkillLevel :: "int \<Rightarrow> 'cb engine \<Rightarrow> 'cb engine" where
  "setSkillLevel level e = send (''setoption name Skill Level value '' @ show_int level) e"

text \<open>
  \<^verbatim>\<open>analyze(fen, depth = 20)\<close>. The argument of \<^verbatim>\<open>this.onAnalysis?.(...)\<close> is evaluated
  only when a callback is set.
\<close>

definition analyze :: "string \<Rightarrow> int option \<Rightarrow> 'cb engine \<Rightarrow> js_error + 'cb engine" where
  "analyze fen depth_arg e =
     (let depth = (case depth_arg of None \<Rightarrow> 20 | Some d \<Rightarrow> d)
      in case worker e of
           None \<Rightarrow>
             (case onAnalysis e of
                None \<Rightarrow> Inr e
              | Some cb \<Rightarrow>
                  (case fallbackEval fen of
                     Inl err \<Rightarrow> Inl err
                   | Inr s \<Rightarrow>
                       Inr (call_onAnalysis
                              \<lparr>a_depth = depth, a_score = Some s, a_mate = None,
                               a_bestMove = None, a_pv = []\<rparr> e)))
         | Some posted \<Rightarrow>
             Inr (send (''go depth '' @ show_int depth)
                    (send (''position fen '' @ fen) (send ''stop'' e))))"

text \<open>
  \<^verbatim>\<open>findBestMove(fen, depth = 12, skillLevel = 20)\<close> returns a new promise, here its index
  in \<open>promises\<close>, together with the new state.
\<close>

definition findBestMove ::
  "string \<Rightarrow> int option \<Rightarrow> int option \<Rightarrow> 'cb engine \<Rightarrow> nat \<times> 'cb engine" where
  "findBestMove fen depth_arg skill_arg e =
     (let depth = (case depth_arg of None \<Rightarrow> 12 | Some d \<Rightarrow> d);
          skillLevel = (case skill_arg of None \<Rightarrow> 20 | Some l \<Rightarrow> l);
          k = length (promises e);
          e0 = e\<lparr>promises := promises e @ [Pending]\<rparr>
      in case worker e0 of
           None \<Rightarrow> (k, resolve k None e0)
         | Some posted \<Rightarrow>
             (let e1 = send ''stop'' e0;
                  e2 = setSkillLevel skillLevel e1;
                  e3 = send (''position fen '' @ fen) e2;
                  prevCallback = onBestMove e3;
                  e4 = e3\<lparr>onBestMove := Some (ResolveAndRestore k prevCallback)\<rparr>;
                  e5 = send (''go depth '' @ show_int depth) e4
              in (k, e5\<lparr>timers := timers e5 @ [(10000, k)]\<rparr>)))"

text \<open>The \<open>i\<close>-th pending timer runs: \<^verbatim>\<open>() => resolve(null)\<close>.\<close>

definition timer_fires :: "nat \<Rightarrow> 'cb engine \<Rightarrow> 'cb engine" where
  "timer_fires i e =
     (case js_index (timers e) i of
        None \<Rightarrow> e
      | Some (delay, k) \<Rightarrow>
          resolve k None (e\<lparr>timers := take i (timers e) @ drop (Suc i) (timers e)\<rparr>))"

definition stop :: "'cb engine \<Rightarrow> 'cb engine" where
  "stop e = send ''stop'' e"

definition setOnAnalysis :: "'cb \<Rightarrow> 'cb engine \<Rightarrow> 'cb engine" where
  "setOnAnalysis cb e = e\<lparr>onAnalysis := Some cb\<rparr>"

definition destroy :: "'cb engine \<Rightarrow> 'cb engine" where
  "destroy e = (send ''quit'' e)\<lparr>worker := None\<rparr>"

text \<open>What the engine receives while no timer runs: a sequence of messages.\<close>

fun receive_all :: "string list \<Rightarrow> 'cb engine \<Rightarrow> 'cb engine" where
  "receive_all [] e = e"
| "receive_all (msg # msgs) e = receive_all msgs (handleMessage msg e)"

subsection \<open>The order of the commands of a request\<close>

text \<open>The commands a call has posted: what the worker holds after it beyond what it held before.\<close>

definition commands_sent :: "string list option \<Rightarrow> string list option \<Rightarrow> string list" where
  "commands_sent w w' =
     (case (w, w') of
        (Some posted, Some posted') \<Rightarrow> drop (length posted) posted'
      | _ \<Rightarrow> [])"

definition is_position :: "string \<Rightarrow> bool" where
  "is_position cmd = starts_with ''position fen '' cmd"

text \<open>
  \<open>stop_guard seen cmds\<close>: every position command of \<open>cmds\<close> comes after a \<^verbatim>\<open>stop\<close>, where
  \<open>seen\<close> tells whether a \<^verbatim>\<open>stop\<close> has gone before.
\<close>

fun stop_guard :: "bool \<Rightarrow> string list \<Rightarrow> bool" where
  "stop_guard seen [] = True"
| "stop_guard seen (cmd # cmds) =
     (if cmd = ''stop'' then stop_guard True cmds
      else if is_position cmd then seen \<and> stop_guard seen cmds
      else stop_guard seen cmds)"

definition stop_before_position :: "string list \<Rightarrow> bool" where
  "stop_before_position cmds = stop_guard False cmds"

section \<open>The rules library\<close>

text \<open>
  Positions, legal moves and move application come from the library \<^verbatim>\<open>chess.js\<close>, which is
  not part of the repository. Its \<^verbatim>\<open>Chess\<close> objects are values of a type \<open>'g\<close>, and the
  operations the program calls are the fields of \<open>chess_lib\<close>, a parameter of every
  function below that uses the library.

  \<^verbatim>\<open>move\<close> takes a move in text form (the bot's answer) or as an object with \<^verbatim>\<open>from\<close>,
  \<^verbatim>\<open>to\<close> and \<^verbatim>\<open>promotion\<close>. The program provides for three outcomes: the call raises
  (\<^verbatim>\<open>handleBotMove\<close> wraps it in \<^verbatim>\<open>try\<close>), it returns a falsy value (both handlers test
  the result), or it changes the object and returns the move made, of which the program
  reads \<^verbatim>\<open>san\<close>. The versions of the library that have the methods the page calls
  (\<^verbatim>\<open>isCheckmate\<close>, \<^verbatim>\<open>isDraw\<close>, \<^verbatim>\<open>isStalemate\<close>) answer a move that matches no legal
  move by raising an \<^verbatim>\<open>Error\<close>; older ones returned \<^verbatim>\<open>null\<close>.
\<close>

datatype move_arg = TextMove string | ObjMove string string string

datatype 'g move_result = Raised | Null | Moved 'g string

record piece =
  p_type :: string
  p_color :: color

record verbose_move =
  m_from :: string
  m_to :: string
  m_san :: string

record 'g chess_lib =
  new_Chess :: "string \<Rightarrow> 'g"
  lib_fen :: "'g \<Rightarrow> string"
  lib_move :: "'g \<Rightarrow> move_arg \<Rightarrow> 'g move_result"
  lib_moves :: "'g \<Rightarrow> string \<Rightarrow> verbose_move list"
  lib_get :: "'g \<Rightarrow> string \<Rightarrow> piece option"

datatype thrown = LibraryError

section \<open>The engine wrapper of the page\<close>

text \<open>
  The page has a \<^verbatim>\<open>StockfishEngine\<close> class of its own. Its fields carry the prefix \<open>p_\<close>
  where the name is taken already. \<open>'w\<close> is whatever the move callback acts on. The only
  function ever stored in \<^verbatim>\<open>messageHandler\<close> is the handler that \<^verbatim>\<open>start\<close> builds around
  its argument \<^verbatim>\<open>onMove\<close>, so the field holds that callback. \<open>resolveReady\<close> tells
  whether the resolver of the promise of \<^verbatim>\<open>init\<close> is held, and \<open>initResult\<close> is the value
  that promise was resolved with, if it was.
\<close>

record 'w page_engine =
  p_worker :: "string list option"
  p_ready :: bool
  resolveReady :: bool
  initResult :: "bool option"
  messageHandler :: "(string \<Rightarrow> 'w \<Rightarrow> 'w) option"

definition start ::
  "string \<Rightarrow> int \<Rightarrow> int \<Rightarrow> (string \<Rightarrow> 'w \<Rightarrow> 'w) \<Rightarrow> 'w page_engine \<Rightarrow> 'w page_engine" where
  "start fen depth skillLevel onMove pe =
     (case p_worker pe of
        None \<Rightarrow> pe
      | Some posted \<Rightarrow>
          if \<not> p_ready pe then pe
          else pe\<lparr>p_worker :=
                    Some (posted @
                      [''setoption name Skill Level value '' @ show_int skillLevel,
                       ''position fen '' @ fen,
                       ''go depth '' @ show_int depth]),
                  messageHandler := Some onMove\<rparr>)"

text \<open>The handler \<^verbatim>\<open>(msg) => { if (msg.startsWith('bestmove')) ... }\<close> set up by \<^verbatim>\<open>start\<close>.\<close>

definition start_handler ::
  "(string \<Rightarrow> 'w \<Rightarrow> 'w) \<Rightarrow> string \<Rightarrow> 'w page_engine \<times> 'w \<Rightarrow> 'w page_engine \<times> 'w" where
  "start_handler onMove msg st =
     (case st of (pe, w) \<Rightarrow>
        if starts_with ''bestmove'' msg then
          (let move = js_index (split_on CHR '' '' msg) 1;
               w' = (case move of
                       None \<Rightarrow> w
                     | Some m \<Rightarrow> if truthy move \<and> m \<noteq> ''(none)'' then onMove m w else w)
           in (pe\<lparr>messageHandler := None\<rparr>, w'))
        else (pe, w))"

text \<open>The \<^verbatim>\<open>onmessage\<close> function that \<^verbatim>\<open>init\<close> installs on the worker.\<close>

definition onmessage :: "string \<Rightarrow> 'w page_engine \<times> 'w \<Rightarrow> 'w page_engine \<times> 'w" where
  "onmessage msg st =
     (case st of (pe, w) \<Rightarrow>
        (let pe1 =
           (if js_includes ''uciok'' msg \<and> \<not> p_ready pe then
              (if resolveReady pe
               then pe\<lparr>p_ready := True, resolveReady := False,
                       initResult := (case initResult pe of None \<Rightarrow> Some True | Some r \<Rightarrow> Some r)\<rparr>
               else pe\<lparr>p_ready := True\<rparr>)
            else pe)
         in case messageHandler pe1 of
              None \<Rightarrow> (pe1, w)
            | Some onMove \<Rightarrow> start_handler onMove msg (pe1, w)))"

definition isReady :: "'w page_engine \<Rightarrow> bool" where
  "isReady pe = p_ready pe"

section \<open>The handlers of the page\<close>

datatype status = Playing | Checkmate | Draw | Stalemate | Timeout | Resigned

text \<open>The state of \<^verbatim>\<open>ChessApp\<close> that the move handlers read and set.\<close>

record 'g page =
  game :: 'g
  gameStatus :: status
  lastMove :: "(string \<times> string) option"
  moveList :: "string list"
  botThinking :: bool
  clockRunning :: bool

text \<open>\<^verbatim>\<open>s.slice(i, j)\<close> for \<open>0 \<le> i \<le> j\<close>.\<close>

definition slice :: "nat \<Rightarrow> nat \<Rightarrow> string \<Rightarrow> string" where
  "slice i j s = take (j - i) (drop i s)"

definition handleBotMove :: "'g chess_lib \<Rightarrow> string \<Rightarrow> 'g page \<Rightarrow> 'g page" where
  "handleBotMove lib move s =
     (if move = [] then s\<lparr>botThinking := False\<rparr>
      else
        (let newGame = new_Chess lib (lib_fen lib (game s))
         in case lib_move lib newGame (TextMove move) of
              Raised \<Rightarrow> s\<lparr>botThinking := False\<rparr>
            | Null \<Rightarrow> s\<lparr>botThinking := False\<rparr>
            | Moved newGame' san \<Rightarrow>
                s\<lparr>game := newGame',
                  lastMove := Some (slice 0 2 move, slice 2 4 move),
                  moveList := moveList s @ [san],
                  botThinking := False\<rparr>))"

text \<open>\<^verbatim>\<open>promotion || 'q'\<close>: a missing or empty promotion becomes \<^verbatim>\<open>'q'\<close>.\<close>

definition promotion_or_q :: "string option \<Rightarrow> string" where
  "promotion_or_q promotion = (case promotion of None \<Rightarrow> ''q'' | Some p \<Rightarrow> if p = [] then ''q'' else p)"

text \<open>
  \<^verbatim>\<open>handleMove\<close> returns a truth value and sets state; it does not catch what the library
  call raises.
\<close>

definition handleMove ::
  "'g chess_lib \<Rightarrow> string \<Rightarrow> string \<Rightarrow> string option \<Rightarrow> 'g page \<Rightarrow> thrown + bool \<times> 'g page" where
  "handleMove lib from to promotion s =
     (if gameStatus s \<noteq> Playing then Inr (False, s)
      else
        (let newGame = new_Chess lib (lib_fen lib (game s))
         in case lib_move lib newGame (ObjMove from to (promotion_or_q promotion)) of
              Raised \<Rightarrow> Inl LibraryError
            | Null \<Rightarrow> Inr (False, s)
            | Moved newGame' san \<Rightarrow>
                Inr (True,
                     s\<lparr>game := newGame',
                       lastMove := Some (from, to),
                       moveList := moveList s @ [san],
                       clockRunning := True\<rparr>)))"

section \<open>The board component\<close>

record board =
  selectedSquare :: "string option"
  possibleMoves :: "string list"

definition getPiece :: "'g chess_lib \<Rightarrow> string \<Rightarrow> string \<Rightarrow> piece option" where
  "getPiece lib position square = lib_get lib (new_Chess lib position) square"

definition getLegalMoves :: "'g chess_lib \<Rightarrow> string \<Rightarrow> string \<Rightarrow> string list" where
  "getLegalMoves lib position square = map m_to (lib_moves lib (new_Chess lib position) square)"

text \<open>The second half of \<^verbatim>\<open>handleSquareClick\<close>: select the clicked square or drop the selection.\<close>

definition select_square :: "'g chess_lib \<Rightarrow> string \<Rightarrow> color \<Rightarrow> string \<Rightarrow> board" where
  "select_square lib position orientation square =
     (case getPiece lib position square of
        None \<Rightarrow> \<lparr>selectedSquare = None, possibleMoves = []\<rparr>
      | Some pc \<Rightarrow>
          if (orientation = White \<and> p_color pc = White) \<or> (orientation = Black \<and> p_color pc = Black)
          then \<lparr>selectedSquare = Some square, possibleMoves = getLegalMoves lib position square\<rparr>
          else \<lparr>selectedSquare = None, possibleMoves = []\<rparr>)"

text \<open>
  \<^verbatim>\<open>handleSquareClick\<close>, with the properties \<^verbatim>\<open>position\<close>, \<^verbatim>\<open>orientation\<close> and \<^verbatim>\<open>onMove\<close>
  of the component as arguments. \<^verbatim>\<open>onMove\<close> acts on a state \<open>'w\<close> of its owner and may
  raise.
\<close>

definition handleSquareClick ::
  "'g chess_lib \<Rightarrow> string \<Rightarrow> color \<Rightarrow>
   (string \<Rightarrow> string \<Rightarrow> string option \<Rightarrow> 'w \<Rightarrow> thrown + bool \<times> 'w) \<Rightarrow>
   string \<Rightarrow> board \<times> 'w \<Rightarrow> thrown + board \<times> 'w" where
  "handleSquareClick lib position orientation onMove square st =
     (case st of (b, w) \<Rightarrow>
        (case selectedSquare b of
           None \<Rightarrow> Inr (select_square lib position orientation square, w)
         | Some sel \<Rightarrow>
             if sel \<noteq> [] \<and> square \<in> set (getLegalMoves lib position sel) then
               (case onMove sel square (Some ''q'') w of
                  Inl err \<Rightarrow> Inl err
                | Inr (success, w') \<Rightarrow>
                    if success then Inr (\<lparr>selectedSquare = None, possibleMoves = []\<rparr>, w')
                    else Inr (select_square lib position orientation square, w'))
             else Inr (select_square lib position orientation square, w)))"

text \<open>A move callback that answers as \<open>answer\<close> tells it and keeps a list of its calls.\<close>

definition recording_onMove ::
  "(string \<Rightarrow> string \<Rightarrow> string option \<Rightarrow> bool) \<Rightarrow> string \<Rightarrow> string \<Rightarrow> string option \<Rightarrow>
   (string \<times> string \<times> string option) list \<Rightarrow> thrown + bool \<times> (string \<times> string \<times> string option) list" where
  "recording_onMove answer from to promotion calls =
     Inr (answer from to promotion, calls @ [(from, to, promotion)])"

section \<open>The rules library at the starting position\<close>

text \<open>
  To run the handlers on concrete inputs the library parameter needs a value.
  \<open>opening_lib\<close> takes the FEN text itself as the \<^verbatim>\<open>Chess\<close> object. It reads the piece on
  a square out of the FEN text, and it knows the legal moves of one position, the starting
  position: the sixteen pawn moves and the four knight moves, in the order in which the
  library lists them, each with its \<^verbatim>\<open>san\<close> and the position it leads to. In any other
  position it lists no move. As the library does since version 1.0, \<^verbatim>\<open>move\<close> raises
  when its argument matches no legal move. A move object matches a legal move with the
  same two squares (no move of the starting position is a promotion, so the promotion is
  not compared); a move in text form matches when it is the \<^verbatim>\<open>san\<close> of a legal move or
  its two squares written together.
\<close>

definition start_fen :: string where
  "start_fen = ''rnbqkbnr/pppppppp/8/8/8/8/PPPPPPPP/RNBQKBNR w KQkq - 0 1''"

definition after_e4_fen :: string where
  "after_e4_fen = ''rnbqkbnr/pppppppp/8/8/4P3/8/PPPP1PPP/RNBQKBNR b KQkq - 0 1''"

definition after_e3_fen :: string where
  "after_e3_fen = ''rnbqkbnr/pppppppp/8/8/8/4P3/PPPP1PPP/RNBQKBNR b KQkq - 0 1''"

definition opening_moves :: "string \<Rightarrow> (verbose_move \<times> string) list" where
  "opening_moves g =
     (if g \<noteq> start_fen then []
      else [
      (\<lparr>m_from = ''a2'', m_to = ''a3'', m_san = ''a3''\<rparr>,
       ''rnbqkbnr/pppppppp/8/8/8/P7/1PPPPPPP/RNBQKBNR b KQkq - 0 1''),
      (\<lparr>m_from = ''a2'', m_to = ''a4'', m_san = ''a4''\<rparr>,
       ''rnbqkbnr/pppppppp/8/8/P7/8/1PPPPPPP/RNBQKBNR b KQkq - 0 1''),
      (\<lparr>m_from = ''b2'', m_to = ''b3'', m_san = ''b3''\<rparr>,
       ''rnbqkbnr/pppppppp/8/8/8/1P6/P1PPPPPP/RNBQKBNR b KQkq - 0 1''),
      (\<lparr>m_from = ''b2'', m_to = ''b4'', m_san = ''b4''\<rparr>,
       ''rnbqkbnr/pppppppp/8/8/1P6/8/P1PPPPPP/RNBQKBNR b KQkq - 0 1''),
      (\<lparr>m_from = ''c2'', m_to = ''c3'', m_san = ''c3''\<rparr>,
       ''rnbqkbnr/pppppppp/8/8/8/2P5/PP1PPPPP/RNBQKBNR b KQkq - 0 1''),
      (\<lparr>m_from = ''c2'', m_to = ''c4'', m_san = ''c4''\<rparr>,
       ''rnbqkbnr/pppppppp/8/8/2P5/8/PP1PPPPP/RNBQKBNR b KQkq - 0 1''),
      (\<lparr>m_from = ''d2'', m_to = ''d3'', m_san = ''d3''\<rparr>,
       ''rnbqkbnr/pppppppp/8/8/8/3P4/PPP1PPPP/RNBQKBNR b KQkq - 0 1''),
      (\<lparr>m_from = ''d2'', m_to = ''d4'', m_san = ''d4''\<rparr>,
       ''rnbqkbnr/pppppppp/8/8/3P4/8/PPP1PPPP/RNBQKBNR b KQkq - 0 1''),
      (\<lparr>m_from = ''e2'', m_to = ''e3'', m_san = ''e3''\<rparr>,
       after_e3_fen),
      (\<lparr>m_from = ''e2'', m_to = ''e4'', m_san = ''e4''\<rparr>,
       after_e4_fen),
      (\<lparr>m_from = ''f2'', m_to = ''f3'', m_san = ''f3''\<rparr>,
       ''rnbqkbnr/pppppppp/8/8/8/5P2/PPPPP1PP/RNBQKBNR b KQkq - 0 1''),
      (\<lparr>m_from = ''f2'', m_to = ''f4'', m_san = ''f4''\<rparr>,
       ''rnbqkbnr/pppppppp/8/8/5P2/8/PPPPP1PP/RNBQKBNR b KQkq - 0 1''),
      (\<lparr>m_from = ''g2'', m_to = ''g3'', m_san = ''g3''\<rparr>,
       ''rnbqkbnr/pppppppp/8/8/8/6P1/PPPPPP1P/RNBQKBNR b KQkq - 0 1''),
      (\<lparr>m_from = ''g2'', m_to = ''g4'', m_san = ''g4''\<rparr>,
       ''rnbqkbnr/pppppppp/8/8/6P1/8/PPPPPP1P/RNBQKBNR b KQkq - 0 1''),
      (\<lparr>m_from = ''h2'', m_to = ''h3'', m_san = ''h3''\<rparr>,
       ''rnbqkbnr/pppppppp/8/8/8/7P/PPPPPPP1/RNBQKBNR b KQkq - 0 1''),
      (\<lparr>m_from = ''h2'', m_to = ''h4'', m_san = ''h4''\<rparr>,
       ''rnbqkbnr/pppppppp/8/8/7P/8/PPPPPPP1/RNBQKBNR b KQkq - 0 1''),
      (\<lparr>m_from = ''b1'', m_to = ''a3'', m_san = ''Na3''\<rparr>,
       ''rnbqkbnr/pppppppp/8/8/8/N7/PPPPPPPP/R1BQKBNR b KQkq - 1 1''),
      (\<lparr>m_from = ''b1'', m_to = ''c3'', m_san = ''Nc3''\<rparr>,
       ''rnbqkbnr/pppppppp/8/8/8/2N5/PPPPPPPP/R1BQKBNR b KQkq - 1 1''),
      (\<lparr>m_from = ''g1'', m_to = ''f3'', m_san = ''Nf3''\<rparr>,
       ''rnbqkbnr/pppppppp/8/8/8/5N2/PPPPPPPP/RNBQKB1R b KQkq - 1 1''),
      (\<lparr>m_from = ''g1'', m_to = ''h3'', m_san = ''Nh3''\<rparr>,
       ''rnbqkbnr/pppppppp/8/8/8/7N/PPPPPPPP/RNBQKB1R b KQkq - 1 1'')])"

definition matches :: "move_arg \<Rightarrow> verbose_move \<Rightarrow> bool" where
  "matches arg m =
     (case arg of
        ObjMove from to promotion \<Rightarrow> m_from m = from \<and> m_to m = to
      | TextMove t \<Rightarrow> t = m_san m \<or> t = m_from m @ m_to m)"

definition opening_move :: "string \<Rightarrow> move_arg \<Rightarrow> string move_result" where
  "opening_move g arg =
     (case filter (\<lambda>(m, g'). matches arg m) (opening_moves g) of
        [] \<Rightarrow> Raised
      | (m, g') # others \<Rightarrow> Moved g' (m_san m))"

definition kind_letter :: "kind \<Rightarrow> string" where
  "kind_letter k =
     (case k of Pawn \<Rightarrow> ''p'' | Knight \<Rightarrow> ''n'' | Bishop \<Rightarrow> ''b'' | Rook \<Rightarrow> ''r''
      | Queen \<Rightarrow> ''q'' | King \<Rightarrow> ''k'')"

text \<open>The piece on a square such as \<^verbatim>\<open>e2\<close>: file \<open>e\<close> of the rank listed seventh.\<close>

definition square_piece :: "string \<Rightarrow> string \<Rightarrow> piece option" where
  "square_piece fen square =
     (case square of
        [f, r] \<Rightarrow>
          if 97 \<le> (of_char f :: nat) \<and> (of_char f :: nat) \<le> 104
             \<and> 49 \<le> (of_char r :: nat) \<and> (of_char r :: nat) \<le> 56
          then
            (case js_index (fen_rank fen (56 - (of_char r :: nat))) ((of_char f :: nat) - 97) of
               Some (Some ch) \<Rightarrow>
                 (case piece_of_letter ch of
                    None \<Rightarrow> None
                  | Some (c, k) \<Rightarrow> Some \<lparr>p_type = kind_letter k, p_color = c\<rparr>)
             | _ \<Rightarrow> None)
          else None
      | _ \<Rightarrow> None)"

definition opening_lib :: "string chess_lib" where
  "opening_lib =
     \<lparr>new_Chess = (\<lambda>fen. fen),
      lib_fen = (\<lambda>g. g),
      lib_move = opening_move,
      lib_moves = (\<lambda>g square. filter (\<lambda>m. m_from m = square) (map fst (opening_moves g))),
      lib_get = square_piece\<rparr>"

definition start_page :: "string page" where
  "start_page =
     \<lparr>game = start_fen, gameStatus = Playing, lastMove = None, moveList = [],
      botThinking = False, clockRunning = False\<rparr>"

section \<open>An invariant of the shuffle\<close>

text \<open>
  While the queen and the knights are placed, the array has eight entries, each empty or
  one of the letters placed so far, and the bishops stand on the files \<open>d\<close> and \<open>l\<close>
  and nowhere else.
\<close>

definition bishops_at :: "nat \<Rightarrow> nat \<Rightarrow> string list \<Rightarrow> bool" where
  "bishops_at d l b =
     (length b = 8 \<and> (\<forall>j<8. b ! j \<in> {[], ''b'', ''q'', ''n''})
      \<and> (\<forall>j<8. (b ! j = ''b'') = (j = d \<or> j = l)))"

section \<open>Further notions used in the statements\<close>

text \<open>How many more white than black bishops the placement field of a FEN record lists.\<close>

definition bishop_surplus :: "string \<Rightarrow> int" where
  "bishop_surplus fen =
     int (count_list (placement_field fen) CHR ''B'') - int (count_list (placement_field fen) CHR ''b'')"

text \<open>
  A message answers a search when it is a \<^verbatim>\<open>bestmove\<close> line whose second word is a move:
  the condition under which \<^verbatim>\<open>handleMessage\<close> calls the best-move callback.
\<close>

definition answers :: "string \<Rightarrow> bool" where
  "answers msg =
     (starts_with ''bestmove'' msg \<and>
      (case js_index (split_on CHR '' '' msg) 1 of
         None \<Rightarrow> False
       | Some m \<Rightarrow> m \<noteq> [] \<and> m \<noteq> ''(none)''))"

text \<open>Engines for evaluating the methods: a fresh one with a worker, and the page's when ready.\<close>

definition fresh_engine :: "nat engine" where
  "fresh_engine =
     \<lparr>worker = Some [], onAnalysis = Some 0, onBestMove = None, ready = True,
      currentAnalysis =
        \<lparr>a_depth = 0, a_score = Some 0, a_mate = None, a_bestMove = None, a_pv = []\<rparr>,
      analysisCalls = [], bestMoveCalls = [], promises = [], timers = []\<rparr>"

definition ready_page_engine :: "string list page_engine" where
  "ready_page_engine =
     \<lparr>p_worker = Some [], p_ready = True, resolveReady = False, initResult = Some True,
      messageHandler = None\<rparr>"

text \<open>A move callback that keeps the moves it is called with.\<close>

definition keep_move :: "string \<Rightarrow> string list \<Rightarrow> string list" where
  "keep_move move moves = moves @ [move]"

section \<open>Properties of the string operations\<close>

lemma split_on_not_Nil: "split_on c s \<noteq> []"
  by (induction s) (auto split: list.splits)

lemma js_index_split_on_0: "js_index (split_on c s) 0 = Some (takeWhile (\<lambda>ch. ch \<noteq> c) s)"
proof (induction s)
  case Nil
  show ?case by simp
next
  case (Cons x xs)
  then show ?case
    by (cases "split_on c xs") (auto simp: split_on_not_Nil)
qed

lemma fallbackEval_returns:
  "fallbackEval fen = Inr (score_loop fallback_values (placement_field fen) 0)"
  by (simp add: fallbackEval_def js_index_split_on_0 placement_field_def)

lemma simpleEval_returns:
  "simpleEval fen = Inr (score_loop simple_pieces (placement_field fen) 0)"
  by (simp add: simpleEval_def js_index_split_on_0 placement_field_def)

section \<open>Properties of the evaluators\<close>

lemma score_loop_acc: "score_loop table s score = score + score_loop table s 0"
proof (induction s arbitrary: score)
  case Nil
  show ?case by simp
next
  case (Cons ch rest)
  show ?case
  proof (cases "table ch")
    case None
    then show ?thesis using Cons.IH [of score] by simp
  next
    case (Some v)
    then show ?thesis using Cons.IH [of "score + v"] Cons.IH [of "0 + v"] by simp
  qed
qed

lemma score_loop_sum_list:
  "score_loop table s 0 = sum_list (map (\<lambda>ch. case table ch of None \<Rightarrow> 0 | Some v \<Rightarrow> v) s)"
proof (induction s)
  case Nil
  show ?case by simp
next
  case (Cons ch rest)
  then show ?case
    using score_loop_acc [of table rest "the (table ch)"]
    by (cases "table ch") simp_all
qed

lemma fallback_values_signed:
  "(case fallback_values ch of None \<Rightarrow> 0 | Some v \<Rightarrow> v) = signed_value ch"
  by (simp add: fallback_values_def signed_value_def piece_of_letter_def piece_value_def)

text \<open>
  C5. For every FEN string, \<^verbatim>\<open>fallbackEval\<close> returns (without raising) the signed sum,
  over the piece letters of the placement field, of Pawn 1, Knight 3, Bishop 3.25, Rook 5,
  Queen 9 and King 0, positive for White pieces and negative for Black pieces.
\<close>

theorem fallbackEval_material_sum: "fallbackEval fen = Inr (material_sum fen)"
proof -
  have "score_loop fallback_values (placement_field fen) 0
          = sum_list (map signed_value (placement_field fen))"
    by (simp add: score_loop_sum_list fallback_values_signed)
  then show ?thesis
    by (simp add: fallbackEval_returns material_sum_def)
qed

lemma table_difference:
  "(case fallback_values ch of None \<Rightarrow> 0 | Some v \<Rightarrow> v) =
   (case simple_pieces ch of None \<Rightarrow> 0 | Some v \<Rightarrow> v)
     + (if ch = CHR ''B'' then 1 / 4 else if ch = CHR ''b'' then - (1 / 4) else 0)"
  by (simp add: fallback_values_def simple_pieces_def)

lemma score_loop_difference:
  "score_loop fallback_values s 0 =
   score_loop simple_pieces s 0
     + of_int (int (count_list s CHR ''B'') - int (count_list s CHR ''b'')) / 4"
proof (induction s)
  case Nil
  show ?case by simp
next
  case (Cons ch rest)
  have F: "score_loop fallback_values (ch # rest) 0 =
          (case fallback_values ch of None \<Rightarrow> 0 | Some v \<Rightarrow> v) + score_loop fallback_values rest 0"
    by (simp add: score_loop_sum_list)
  have S: "score_loop simple_pieces (ch # rest) 0 =
          (case simple_pieces ch of None \<Rightarrow> 0 | Some v \<Rightarrow> v) + score_loop simple_pieces rest 0"
    by (simp add: score_loop_sum_list)
  show ?case
    unfolding F S Cons.IH table_difference by (simp add: field_simps)
qed

text \<open>
  C6, as amended. The two evaluators differ in the value of a bishop only (3.25 against 3):
  for every FEN string both return a score, the score of \<^verbatim>\<open>fallbackEval\<close> exceeds that
  of \<^verbatim>\<open>simpleEval\<close> by a quarter of a pawn for each white bishop that the placement field
  lists beyond the black ones, and the two scores are equal exactly when it lists as many
  \<^verbatim>\<open>B\<close> as \<^verbatim>\<open>b\<close>.
\<close>

theorem evaluators_differ_by_bishops:
  "\<exists>x y. fallbackEval fen = Inr x \<and> simpleEval fen = Inr y
         \<and> x - y = of_int (bishop_surplus fen) / 4
         \<and> (x = y) = (bishop_surplus fen = 0)"
proof -
  let ?p = "placement_field fen"
  have f: "fallbackEval fen = Inr (score_loop fallback_values ?p 0)"
    by (rule fallbackEval_returns)
  have s: "simpleEval fen = Inr (score_loop simple_pieces ?p 0)"
    by (rule simpleEval_returns)
  have d: "score_loop fallback_values ?p 0 - score_loop simple_pieces ?p 0
             = of_int (bishop_surplus fen) / 4"
    using score_loop_difference [of ?p] by (simp add: bishop_surplus_def)
  have "(score_loop fallback_values ?p 0 = score_loop simple_pieces ?p 0)
          = (bishop_surplus fen = 0)"
    using d by auto
  with f s d show ?thesis by blast
qed

text \<open>
  C6 as stated (equal scores for every FEN string) fails on a position with one bishop:
  king and bishop against king.
\<close>

theorem evaluators_equal_counterexample:
  "fallbackEval ''4k3/8/8/8/8/8/8/2B1K3 w - - 0 1'' = Inr (13 / 4)
   \<and> simpleEval ''4k3/8/8/8/8/8/8/2B1K3 w - - 0 1'' = Inr 3
   \<and> fallbackEval ''4k3/8/8/8/8/8/8/2B1K3 w - - 0 1''
       \<noteq> simpleEval ''4k3/8/8/8/8/8/8/2B1K3 w - - 0 1''"
proof -
  have f: "fallbackEval ''4k3/8/8/8/8/8/8/2B1K3 w - - 0 1'' = Inr (13 / 4)"
    by (simp add: fallbackEval_def fallback_values_def)
  have s: "simpleEval ''4k3/8/8/8/8/8/8/2B1K3 w - - 0 1'' = Inr 3"
    by (simp add: simpleEval_def simple_pieces_def)
  show ?thesis unfolding f s by simp
qed

text \<open>
  The amended statement at that position.
\<close>

theorem evaluators_differ_by_bishops_witness:
  "bishop_surplus ''4k3/8/8/8/8/8/8/2B1K3 w - - 0 1'' = 1
   \<and> (\<exists>x y. fallbackEval ''4k3/8/8/8/8/8/8/2B1K3 w - - 0 1'' = Inr x
         \<and> simpleEval ''4k3/8/8/8/8/8/8/2B1K3 w - - 0 1'' = Inr y \<and> x - y = 1 / 4)"
proof -
  have b: "bishop_surplus ''4k3/8/8/8/8/8/8/2B1K3 w - - 0 1'' = 1"
    by (simp add: bishop_surplus_def placement_field_def)
  show ?thesis
    using evaluators_differ_by_bishops [of "''4k3/8/8/8/8/8/8/2B1K3 w - - 0 1''"]
    unfolding b by auto
qed

section \<open>Properties of the shuffled starting position\<close>

lemma empty_squares_eq:
  "empty_squares b = map int (filter (\<lambda>i. b ! i = []) [0..<length b])"
proof -
  have z: "zip b [0..<length b] = map (\<lambda>i. (b ! i, i)) [0..<length b]"
    by (rule nth_equalityI) simp_all
  show ?thesis
    unfolding empty_squares_def z
    by (induction "[0..<length b]") (simp_all add: filter_map comp_def cong: map_cong)
qed

lemma random_index_range:
  assumes "0 \<le> u" "u < 1" "0 < n"
  shows "0 \<le> random_index u n \<and> random_index u n < int n"
proof -
  have "0 \<le> u * of_nat n" using assms by simp
  moreover have "u * of_nat n < of_nat n" using assms by simp
  ultimately show ?thesis
    unfolding random_index_def by (simp add: floor_less_iff)
qed

lemma pick_in_range:
  assumes "0 \<le> u" "u < 1" "xs \<noteq> []"
  shows "\<exists>x\<in>set xs. js_at xs (random_index u (length xs)) = Some x"
proof -
  have "0 \<le> random_index u (length xs) \<and> random_index u (length xs) < int (length xs)"
    using assms by (intro random_index_range) simp_all
  then show ?thesis by (auto simp: js_at_def)
qed

lemma place_step:
  assumes "0 \<le> u" "u < 1" "empty_squares b \<noteq> []"
  shows "\<exists>i<length b. b ! i = [] \<and>
           js_assign b (js_at (empty_squares b) (random_index u (length (empty_squares b)))) v
             = b[i := v]"
proof -
  from pick_in_range [OF assms] obtain x where
    x: "x \<in> set (empty_squares b)"
       "js_at (empty_squares b) (random_index u (length (empty_squares b))) = Some x"
    by blast
  from x(1) obtain i where "x = int i" "i < length b" "b ! i = []"
    by (auto simp: empty_squares_eq)
  then show ?thesis using x(2) by (auto simp: js_assign_def)
qed

lemma length_filter_upt: "length (filter P [0..<n]) = card {j. j < n \<and> P j}"
proof -
  have "distinct (filter P [0..<n])" by simp
  then have "length (filter P [0..<n]) = card (set (filter P [0..<n]))"
    by (rule distinct_card [symmetric])
  also have "set (filter P [0..<n]) = {j. j < n \<and> P j}" by auto
  finally show ?thesis .
qed

lemma length_empty_squares_update:
  assumes "i < length b" "b ! i = []" "v \<noteq> []"
  shows "Suc (length (empty_squares (b[i := v]))) = length (empty_squares b)"
proof -
  let ?E = "{j. j < length b \<and> b ! j = []}"
  have "{j. j < length b \<and> b[i := v] ! j = []} = ?E - {i}"
    using assms by (auto simp: nth_list_update)
  moreover have "Suc (card (?E - {i})) = card ?E"
    using assms by (intro card_Suc_Diff1) simp_all
  ultimately have "Suc (card {j. j < length b \<and> b[i := v] ! j = []}) = card ?E"
    by simp
  then show ?thesis
    by (simp add: empty_squares_eq length_filter_upt)
qed

lemma split_on_append:
  "c \<notin> set xs \<Longrightarrow>
     split_on c (xs @ ys) = (xs @ hd (split_on c ys)) # tl (split_on c ys)"
proof (induction xs)
  case Nil
  then show ?case by (simp add: split_on_not_Nil)
next
  case (Cons x xs)
  then show ?case by auto
qed

lemma split_on_absent: "c \<notin> set xs \<Longrightarrow> split_on c xs = [xs]"
  by (induction xs) auto

lemma placement_field_append:
  "CHR '' '' \<notin> set s \<Longrightarrow> placement_field (s @ CHR '' '' # rest) = s"
  unfolding placement_field_def by (induction s) auto

lemma rank_squares_letters:
  "\<forall>ch\<in>set s. \<not> is_digit ch \<Longrightarrow> rank_squares s = map Some s"
  by (induction s) (simp_all add: rank_squares_def)

lemma fen_rank_layout:
  assumes "CHR ''/'' \<notin> set r8" "CHR '' '' \<notin> set r8" "\<forall>ch\<in>set r8. \<not> is_digit ch"
    and "CHR ''/'' \<notin> set r1" "CHR '' '' \<notin> set r1" "\<forall>ch\<in>set r1. \<not> is_digit ch"
  shows "fen_rank (r8 @ ''/pppppppp/8/8/8/8/PPPPPPPP/'' @ r1 @ '' w KQkq - 0 1'') 0 = map Some r8"
    and "fen_rank (r8 @ ''/pppppppp/8/8/8/8/PPPPPPPP/'' @ r1 @ '' w KQkq - 0 1'') 7 = map Some r1"
proof -
  let ?fen = "r8 @ ''/pppppppp/8/8/8/8/PPPPPPPP/'' @ r1 @ '' w KQkq - 0 1''"
  have "?fen = (r8 @ ''/pppppppp/8/8/8/8/PPPPPPPP/'' @ r1) @ CHR '' '' # ''w KQkq - 0 1''"
    by simp
  moreover have "CHR '' '' \<notin> set (r8 @ ''/pppppppp/8/8/8/8/PPPPPPPP/'' @ r1)"
    using assms by simp
  ultimately have pf: "placement_field ?fen = r8 @ ''/pppppppp/8/8/8/8/PPPPPPPP/'' @ r1"
    using placement_field_append by metis
  have sp: "split_on CHR ''/'' (r8 @ ''/pppppppp/8/8/8/8/PPPPPPPP/'' @ r1)
              = [r8, ''pppppppp'', ''8'', ''8'', ''8'', ''8'', ''PPPPPPPP'', r1]"
    using assms(1,4) by (simp add: split_on_append split_on_absent)
  show "fen_rank ?fen 0 = map Some r8"
    unfolding fen_rank_def pf sp using assms(3) by (simp add: rank_squares_letters)
  have "js_index [r8, ''pppppppp'', ''8'', ''8'', ''8'', ''8'', ''PPPPPPPP'', r1] 7 = Some r1"
    by (simp add: eval_nat_numeral)
  then show "fen_rank ?fen 7 = map Some r1"
    unfolding fen_rank_def pf sp using assms(6) by (simp add: rank_squares_letters)
qed

lemma files_of_map_Some:
  "files_of ch (map Some s) = filter (\<lambda>i. s ! i = ch) [0..<length s]"
  unfolding files_of_def by (rule filter_cong) auto

lemma filter_upt_one:
  assumes "a < n" "\<And>i. i < n \<Longrightarrow> P i = (i = a)"
  shows "filter P [0..<n] = [a]"
proof (rule sorted_distinct_set_unique)
  show "set (filter P [0..<n]) = set [a]" using assms by auto
  show "sorted (filter P [0..<n])" by (rule sorted_wrt_filter) simp
qed simp_all

lemma filter_upt_two:
  assumes "a < b" "b < n" "\<And>i. i < n \<Longrightarrow> P i = (i = a \<or> i = b)"
  shows "filter P [0..<n] = [a, b]"
proof (rule sorted_distinct_set_unique)
  show "set (filter P [0..<n]) = set [a, b]" using assms by auto
  show "sorted [a, b]" "distinct [a, b]" using assms by simp_all
  show "sorted (filter P [0..<n])" by (rule sorted_wrt_filter) simp
qed simp_all

lemma upper_char_b: "upper_char CHR ''b'' = CHR ''B''"
  by code_simp

lemma upper_char_q: "upper_char CHR ''q'' = CHR ''Q''"
  by code_simp

lemma upper_char_n: "upper_char CHR ''n'' = CHR ''N''"
  by code_simp

lemma upper_char_r: "upper_char CHR ''r'' = CHR ''R''"
  by code_simp

lemma upper_char_k: "upper_char CHR ''k'' = CHR ''K''"
  by code_simp

lemmas upper_char_letters = upper_char_b upper_char_q upper_char_n upper_char_r upper_char_k

lemma concat_singletons: "\<forall>x\<in>set xs. length x = 1 \<Longrightarrow> concat xs = map hd xs"
proof (induction xs)
  case Nil
  show ?case by simp
next
  case (Cons x xs)
  then show ?case by (cases x) simp_all
qed

lemma bishops_step:
  assumes inv: "bishops_at d l b" and n: "length (empty_squares b) = Suc m"
    and u: "0 \<le> u" "u < 1" and v: "v = ''q'' \<or> v = ''n''"
  shows "bishops_at d l
           (js_assign b (js_at (empty_squares b) (random_index u (length (empty_squares b)))) v)
         \<and> length (empty_squares
             (js_assign b (js_at (empty_squares b) (random_index u (length (empty_squares b)))) v))
           = m"
proof -
  have ne: "empty_squares b \<noteq> []" using n by auto
  from place_step [OF u ne, of v] obtain i where
    i: "i < length b" "b ! i = []"
    and eq: "js_assign b (js_at (empty_squares b) (random_index u (length (empty_squares b)))) v
               = b[i := v]"
    by blast
  have "v \<noteq> []" using v by auto
  from length_empty_squares_update [OF i this] n
  have "length (empty_squares (b[i := v])) = m" by simp
  moreover have "bishops_at d l (b[i := v])"
    unfolding bishops_at_def
  proof (intro conjI allI impI)
    show "length (b[i := v]) = 8" using inv by (simp add: bishops_at_def)
  next
    fix j :: nat
    assume j: "j < 8"
    have "b ! j \<in> {[], ''b'', ''q'', ''n''}" using inv j unfolding bishops_at_def by blast
    then show "b[i := v] ! j \<in> {[], ''b'', ''q'', ''n''}"
      using v i(1) by (cases "i = j") auto
  next
    fix j :: nat
    assume j: "j < 8"
    have old: "(b ! j = ''b'') = (j = d \<or> j = l)" using inv j unfolding bishops_at_def by blast
    show "(b[i := v] ! j = ''b'') = (j = d \<or> j = l)"
    proof (cases "i = j")
      case True
      then have "b ! j \<noteq> ''b''" using i(2) by simp
      with old have "\<not> (j = d \<or> j = l)" by simp
      moreover have "b[i := v] ! j = v" using True i(1) by simp
      moreover have "v \<noteq> ''b''" using v by auto
      ultimately show ?thesis by simp
    next
      case False
      then show ?thesis using old by simp
    qed
  qed
  ultimately show ?thesis unfolding eq by simp
qed

lemma layout_ok:
  assumes len: "length cs = 8"
    and alpha: "set cs \<subseteq> {CHR ''b'', CHR ''q'', CHR ''n'', CHR ''r'', CHR ''k''}"
    and ord: "e0 < e1" "e1 < e2" "e2 < 8"
    and bish: "d < 8" "l < 8" "even d" "odd l"
    and r: "\<And>j. j < 8 \<Longrightarrow> (cs ! j = CHR ''r'') = (j = e0 \<or> j = e2)"
    and k: "\<And>j. j < 8 \<Longrightarrow> (cs ! j = CHR ''k'') = (j = e1)"
    and b: "\<And>j. j < 8 \<Longrightarrow> (cs ! j = CHR ''b'') = (j = d \<or> j = l)"
  shows "back_ranks_ok
           (cs @ ''/pppppppp/8/8/8/8/PPPPPPPP/'' @ toUpperCase cs @ '' w KQkq - 0 1'')"
proof -
  let ?up = "toUpperCase cs"
  let ?fen = "cs @ ''/pppppppp/8/8/8/8/PPPPPPPP/'' @ ?up @ '' w KQkq - 0 1''"
  have up_set: "set ?up \<subseteq> {CHR ''B'', CHR ''Q'', CHR ''N'', CHR ''R'', CHR ''K''}"
    using alpha by (auto simp: toUpperCase_def upper_char_letters)
  have clean: "CHR ''/'' \<notin> set cs" "CHR '' '' \<notin> set cs" "\<forall>ch\<in>set cs. \<not> is_digit ch"
    using alpha by (auto simp: is_digit_def)
  have clean_up: "CHR ''/'' \<notin> set ?up" "CHR '' '' \<notin> set ?up" "\<forall>ch\<in>set ?up. \<not> is_digit ch"
    using up_set by (auto simp: is_digit_def)
  have r8: "fen_rank ?fen 0 = map Some cs" and r1: "fen_rank ?fen 7 = map Some ?up"
    using fen_rank_layout [OF clean clean_up] by simp_all
  have in_alpha: "cs ! j \<in> {CHR ''b'', CHR ''q'', CHR ''n'', CHR ''r'', CHR ''k''}" if "j < 8" for j
    using alpha len that by (metis nth_mem subsetD)
  have upR: "(?up ! j = CHR ''R'') = (j = e0 \<or> j = e2)" if "j < 8" for j
    using in_alpha [OF that] r [OF that] len that
    by (auto simp: toUpperCase_def upper_char_letters)
  have upK: "(?up ! j = CHR ''K'') = (j = e1)" if "j < 8" for j
    using in_alpha [OF that] k [OF that] len that
    by (auto simp: toUpperCase_def upper_char_letters)
  have upB: "(?up ! j = CHR ''B'') = (j = d \<or> j = l)" if "j < 8" for j
    using in_alpha [OF that] b [OF that] len that
    by (auto simp: toUpperCase_def upper_char_letters)
  have len_up: "length ?up = 8" using len by (simp add: toUpperCase_def)
  have e0: "e0 < e2" using ord by simp
  have kings: "files_of CHR ''k'' (map Some cs) = [e1]" "files_of CHR ''K'' (map Some ?up) = [e1]"
    unfolding files_of_map_Some len len_up
    using ord k upK by (auto intro!: filter_upt_one)
  have rooks: "files_of CHR ''r'' (map Some cs) = [e0, e2]"
    "files_of CHR ''R'' (map Some ?up) = [e0, e2]"
    unfolding files_of_map_Some len len_up
    using ord e0 r upR by (auto intro!: filter_upt_two)
  have dl: "d \<noteq> l" using bish by auto
  have bishops: "files_of CHR ''b'' (map Some cs) = [min d l, max d l]"
    "files_of CHR ''B'' (map Some ?up) = [min d l, max d l]"
    unfolding files_of_map_Some len len_up
    using bish dl b upB by (auto intro!: filter_upt_two simp: min_def max_def)
  have par: "even (min d l) \<noteq> even (max d l)"
    using bish by (auto simp: min_def max_def)
  show ?thesis
    unfolding back_ranks_ok_def r8 r1 king_between_rooks_def bishops_opposite_def
      kings rooks bishops
    using ord par len len_up by simp
qed

lemma js_assign_in_range:
  "0 \<le> x \<Longrightarrow> nat x < length b \<Longrightarrow> js_assign b (Some x) v = b[nat x := v]"
  by (simp add: js_assign_def)

lemma bishops_start:
  assumes "0 \<le> u1" "u1 < 1" "0 \<le> u2" "u2 < 1"
  shows "\<exists>d l. d < 8 \<and> l < 8 \<and> even d \<and> odd l \<and>
           js_assign
             (js_assign (replicate 8 [])
                (js_at [0, 2, 4, 6] (random_index u1 (length [0, 2, 4, 6 :: int]))) ''b'')
             (js_at [1, 3, 5, 7] (random_index u2 (length [1, 3, 5, 7 :: int]))) ''b''
           = (replicate 8 [])[d := ''b'', l := ''b'']"
proof -
  from pick_in_range [OF assms(1,2), of "[0, 2, 4, 6 :: int]"] obtain x where
    x: "x \<in> set [0, 2, 4, 6 :: int]"
       "js_at [0, 2, 4, 6] (random_index u1 (length [0, 2, 4, 6 :: int])) = Some x"
    by blast
  from pick_in_range [OF assms(3,4), of "[1, 3, 5, 7 :: int]"] obtain y where
    y: "y \<in> set [1, 3, 5, 7 :: int]"
       "js_at [1, 3, 5, 7] (random_index u2 (length [1, 3, 5, 7 :: int])) = Some y"
    by blast
  have xr: "0 \<le> x" "nat x < 8" "even (nat x)" using x(1) by auto
  have yr: "0 \<le> y" "nat y < 8" "odd (nat y)" using y(1) by auto
  have "js_assign (js_assign (replicate 8 []) (Some x) ''b'') (Some y) ''b''
          = (replicate 8 [])[nat x := ''b'', nat y := ''b'']"
    using xr(1,2) yr(1,2) by (simp add: js_assign_in_range)
  then show ?thesis unfolding x(2) y(2) using xr yr by blast
qed

lemma empty_squares_replicate: "length (empty_squares (replicate 8 [])) = 8"
  by (simp add: empty_squares_eq length_filter_upt)

lemma bishops_at_start:
  assumes "d < 8" "l < 8" "even d" "odd l"
  shows "bishops_at d l ((replicate 8 [])[d := ''b'', l := ''b''])"
    and "length (empty_squares ((replicate 8 [])[d := ''b'', l := ''b''])) = 6"
proof -
  let ?b0 = "replicate 8 ([] :: string)"
  have dl: "d \<noteq> l" using assms by auto
  show "bishops_at d l (?b0[d := ''b'', l := ''b''])"
    unfolding bishops_at_def using assms dl
    by (auto simp: nth_list_update)
  have "Suc (length (empty_squares (?b0[d := ''b'']))) = length (empty_squares ?b0)"
    using assms by (intro length_empty_squares_update) simp_all
  then have 7: "length (empty_squares (?b0[d := ''b''])) = 7"
    by (simp add: empty_squares_replicate)
  have "Suc (length (empty_squares (?b0[d := ''b'', l := ''b'']))) =
          length (empty_squares (?b0[d := ''b'']))"
    using assms dl by (intro length_empty_squares_update) simp_all
  with 7 show "length (empty_squares (?b0[d := ''b'', l := ''b''])) = 6" by simp
qed

lemma three_sorted:
  assumes "length es = 3" "sorted_wrt (<) (es :: nat list)"
  obtains e0 e1 e2 where "es = [e0, e1, e2]" "e0 < e1" "e1 < e2"
proof -
  from assms(1) obtain e0 e1 e2 where "es = [e0, e1, e2]"
    by (auto simp: length_Suc_conv eval_nat_numeral)
  with assms(2) that show ?thesis by auto
qed

lemma rooks_and_king:
  assumes inv: "bishops_at d l b" and n: "length (empty_squares b) = 3"
  shows "\<exists>e0 e1 e2. e0 < e1 \<and> e1 < e2 \<and> e2 < 8
           \<and> (\<forall>j<8. (b ! j = []) = (j = e0 \<or> j = e1 \<or> j = e2))
           \<and> (if length (sort (empty_squares b)) = 3
               then js_assign (js_assign (js_assign b (js_at (sort (empty_squares b)) 0) ''r'')
                      (js_at (sort (empty_squares b)) 1) ''k'') (js_at (sort (empty_squares b)) 2) ''r''
               else b) = b[e0 := ''r'', e1 := ''k'', e2 := ''r'']"
proof -
  have len: "length b = 8" using inv by (simp add: bishops_at_def)
  define es where "es = filter (\<lambda>i. b ! i = []) [0..<8]"
  have E: "empty_squares b = map int es" by (simp add: empty_squares_eq es_def len)
  have "length es = 3" using n E by simp
  moreover have "sorted_wrt (<) es" unfolding es_def by (rule sorted_wrt_filter) simp
  ultimately obtain e0 e1 e2 where es: "es = [e0, e1, e2]" and ord: "e0 < e1" "e1 < e2"
    by (rule three_sorted)
  have mem: "(b ! j = []) = (j = e0 \<or> j = e1 \<or> j = e2)" if "j < 8" for j
  proof -
    have "j \<in> set es \<longleftrightarrow> b ! j = []" using that by (auto simp: es_def)
    then show ?thesis by (auto simp: es)
  qed
  have "e2 \<in> set es" by (simp add: es)
  then have e2: "e2 < 8" by (simp add: es_def)
  have S: "sort (empty_squares b) = [int e0, int e1, int e2]"
    unfolding E es using ord by (simp add: insort_is_Cons)
  have "js_at [int e0, int e1, int e2] 0 = Some (int e0)"
    "js_at [int e0, int e1, int e2] 1 = Some (int e1)"
    "js_at [int e0, int e1, int e2] 2 = Some (int e2)"
    by (simp_all add: js_at_def)
  then have "(if length (sort (empty_squares b)) = 3
               then js_assign (js_assign (js_assign b (js_at (sort (empty_squares b)) 0) ''r'')
                      (js_at (sort (empty_squares b)) 1) ''k'') (js_at (sort (empty_squares b)) 2) ''r''
               else b) = b[e0 := ''r'', e1 := ''k'', e2 := ''r'']"
    unfolding S using ord e2 len by (simp add: js_assign_in_range)
  with ord e2 mem show ?thesis by blast
qed

lemma final_chars:
  assumes inv: "bishops_at d l b" and ord: "e0 < e1" "e1 < e2" "e2 < 8"
    and mem: "\<forall>j<8. (b ! j = []) = (j = e0 \<or> j = e1 \<or> j = e2)"
  shows "length (concat (b[e0 := ''r'', e1 := ''k'', e2 := ''r''])) = 8"
    and "set (concat (b[e0 := ''r'', e1 := ''k'', e2 := ''r'']))
           \<subseteq> {CHR ''b'', CHR ''q'', CHR ''n'', CHR ''r'', CHR ''k''}"
    and "\<And>j. j < 8 \<Longrightarrow>
           (concat (b[e0 := ''r'', e1 := ''k'', e2 := ''r'']) ! j = CHR ''r'') = (j = e0 \<or> j = e2)"
    and "\<And>j. j < 8 \<Longrightarrow>
           (concat (b[e0 := ''r'', e1 := ''k'', e2 := ''r'']) ! j = CHR ''k'') = (j = e1)"
    and "\<And>j. j < 8 \<Longrightarrow>
           (concat (b[e0 := ''r'', e1 := ''k'', e2 := ''r'']) ! j = CHR ''b'') = (j = d \<or> j = l)"
proof -
  let ?b6 = "b[e0 := ''r'', e1 := ''k'', e2 := ''r'']"
  have len: "length b = 8" using inv by (simp add: bishops_at_def)
  have nth6: "?b6 ! j = (if j = e2 then ''r'' else if j = e1 then ''k''
                         else if j = e0 then ''r'' else b ! j)" if "j < 8" for j
    using that len ord by (simp add: nth_list_update)
  have old: "b ! j \<in> {[], ''b'', ''q'', ''n''}" if "j < 8" for j
    using inv that unfolding bishops_at_def by blast
  have oldb: "(b ! j = ''b'') = (j = d \<or> j = l)" if "j < 8" for j
    using inv that unfolding bishops_at_def by blast
  have rest: "b ! j \<in> {''b'', ''q'', ''n''}" if "j < 8" "j \<noteq> e0" "j \<noteq> e1" "j \<noteq> e2" for j
  proof -
    have "b ! j \<noteq> []" using mem that by simp
    with old [OF that(1)] show ?thesis by simp
  qed
  have hd6: "hd (?b6 ! j) = (if j = e2 then CHR ''r'' else if j = e1 then CHR ''k''
                             else if j = e0 then CHR ''r'' else hd (b ! j))" if "j < 8" for j
    using nth6 [OF that] by simp
  have one: "length (?b6 ! j) = 1" if "j < 8" for j
  proof (cases "j = e0 \<or> j = e1 \<or> j = e2")
    case True
    then show ?thesis using nth6 [OF that] by auto
  next
    case False
    then have "b ! j \<in> {''b'', ''q'', ''n''}" using rest that by simp
    then show ?thesis using nth6 [OF that] False by auto
  qed
  have "\<forall>x\<in>set ?b6. length x = 1"
  proof
    fix x assume "x \<in> set ?b6"
    then obtain j where "j < length ?b6" "x = ?b6 ! j" by (metis in_set_conv_nth)
    then show "length x = 1" using one [of j] len by simp
  qed
  then have cs: "concat ?b6 = map hd ?b6" by (rule concat_singletons)
  show "length (concat ?b6) = 8" unfolding cs using len by simp
  have nthcs: "concat ?b6 ! j = hd (?b6 ! j)" if "j < 8" for j
    unfolding cs using that len by simp
  have hdrest: "hd (b ! j) \<in> {CHR ''b'', CHR ''q'', CHR ''n''}
                  \<and> (hd (b ! j) = CHR ''b'') = (j = d \<or> j = l)"
    if "j < 8" "j \<noteq> e0" "j \<noteq> e1" "j \<noteq> e2" for j
    using rest [OF that] oldb [OF that(1)] by auto
  have nob: "\<not> (j = d \<or> j = l)" if "j < 8" "j = e0 \<or> j = e1 \<or> j = e2" for j
  proof -
    have "b ! j = []" using mem that by simp
    then have "b ! j \<noteq> ''b''" by simp
    then show ?thesis using oldb [OF that(1)] by simp
  qed
  show "set (concat ?b6) \<subseteq> {CHR ''b'', CHR ''q'', CHR ''n'', CHR ''r'', CHR ''k''}"
  proof
    fix c assume "c \<in> set (concat ?b6)"
    then obtain j where j: "j < length (concat ?b6)" "c = concat ?b6 ! j"
      by (metis in_set_conv_nth)
    then have j8: "j < 8" unfolding cs using len by simp
    show "c \<in> {CHR ''b'', CHR ''q'', CHR ''n'', CHR ''r'', CHR ''k''}"
    proof (cases "j = e0 \<or> j = e1 \<or> j = e2")
      case True
      then show ?thesis unfolding j(2) nthcs [OF j8] hd6 [OF j8] by auto
    next
      case False
      then show ?thesis unfolding j(2) nthcs [OF j8] hd6 [OF j8] using hdrest [of j] j8 by auto
    qed
  qed
  show "(concat ?b6 ! j = CHR ''r'') = (j = e0 \<or> j = e2)" if "j < 8" for j
  proof (cases "j = e0 \<or> j = e1 \<or> j = e2")
    case True
    then show ?thesis unfolding nthcs [OF that] hd6 [OF that] using ord by auto
  next
    case False
    then show ?thesis unfolding nthcs [OF that] hd6 [OF that] using hdrest [of j] that by auto
  qed
  show "(concat ?b6 ! j = CHR ''k'') = (j = e1)" if "j < 8" for j
  proof (cases "j = e0 \<or> j = e1 \<or> j = e2")
    case True
    then show ?thesis unfolding nthcs [OF that] hd6 [OF that] using ord by auto
  next
    case False
    then show ?thesis unfolding nthcs [OF that] hd6 [OF that] using hdrest [of j] that by auto
  qed
  show "(concat ?b6 ! j = CHR ''b'') = (j = d \<or> j = l)" if "j < 8" for j
  proof (cases "j = e0 \<or> j = e1 \<or> j = e2")
    case True
    then show ?thesis unfolding nthcs [OF that] hd6 [OF that] using nob [OF that True] by auto
  next
    case False
    then show ?thesis unfolding nthcs [OF that] hd6 [OF that] using hdrest [of j] that by auto
  qed
qed

text \<open>
  C4. Whatever the five random draws (each a number \<open>0 \<le> u < 1\<close>, as \<^verbatim>\<open>Math.random()\<close>
  returns), the FEN string of \<^verbatim>\<open>random960Position\<close> has on the back rank of each colour
  exactly one king standing between exactly two rooks, and exactly two bishops, on squares
  of opposite colours.
\<close>

theorem random960Position_back_ranks:
  assumes u1: "0 \<le> u1" "u1 < 1" and u2: "0 \<le> u2" "u2 < 1" and u3: "0 \<le> u3" "u3 < 1"
    and u4: "0 \<le> u4" "u4 < 1" and u5: "0 \<le> u5" "u5 < 1"
  shows "back_ranks_ok (random960Position u1 u2 u3 u4 u5)"
proof -
  define b2 where "b2 =
    js_assign
      (js_assign (replicate 8 [])
         (js_at [0, 2, 4, 6] (random_index u1 (length [0, 2, 4, 6 :: int]))) ''b'')
      (js_at [1, 3, 5, 7] (random_index u2 (length [1, 3, 5, 7 :: int]))) ''b''"
  define b3 where "b3 =
    js_assign b2 (js_at (empty_squares b2) (random_index u3 (length (empty_squares b2)))) ''q''"
  define b4 where "b4 =
    js_assign b3 (js_at (empty_squares b3) (random_index u4 (length (empty_squares b3)))) ''n''"
  define b5 where "b5 =
    js_assign b4 (js_at (empty_squares b4) (random_index u5 (length (empty_squares b4)))) ''n''"
  define b6 where "b6 =
    (if length (sort (empty_squares b5)) = 3
     then js_assign (js_assign (js_assign b5 (js_at (sort (empty_squares b5)) 0) ''r'')
            (js_at (sort (empty_squares b5)) 1) ''k'') (js_at (sort (empty_squares b5)) 2) ''r''
     else b5)"
  have fen: "random960Position u1 u2 u3 u4 u5 =
      concat b6 @ ''/pppppppp/8/8/8/8/PPPPPPPP/'' @ toUpperCase (concat b6) @ '' w KQkq - 0 1''"
    unfolding random960Position_def Let_def b6_def b5_def b4_def b3_def b2_def ..
  from bishops_start [OF u1 u2] obtain d l where
    dl: "d < 8" "l < 8" "even d" "odd l" and b2: "b2 = (replicate 8 [])[d := ''b'', l := ''b'']"
    unfolding b2_def by blast
  have i2: "bishops_at d l b2" "length (empty_squares b2) = Suc 5"
    unfolding b2 using bishops_at_start [OF dl] by simp_all
  have i3: "bishops_at d l b3" "length (empty_squares b3) = Suc 4"
    unfolding b3_def using bishops_step [OF i2 u3, of "''q''"] by simp_all
  have i4: "bishops_at d l b4" "length (empty_squares b4) = Suc 3"
    unfolding b4_def using bishops_step [OF i3 u4, of "''n''"] by simp_all
  have i5: "bishops_at d l b5" "length (empty_squares b5) = 3"
    unfolding b5_def using bishops_step [OF i4 u5, of "''n''"] by simp_all
  from rooks_and_king [OF i5] obtain e0 e1 e2 where
    ord: "e0 < e1" "e1 < e2" "e2 < 8"
    and mem: "\<forall>j<8. (b5 ! j = []) = (j = e0 \<or> j = e1 \<or> j = e2)"
    and b6: "b6 = b5[e0 := ''r'', e1 := ''k'', e2 := ''r'']"
    unfolding b6_def by blast
  note fc = final_chars [OF i5(1) ord mem, folded b6]
  show ?thesis
    unfolding fen by (rule layout_ok [OF fc(1,2) ord dl fc(3,4,5)])
qed

text \<open>
  The statement at the draws 1/2, 3/4, 5/6, 1/5 and 99/100, which give the back rank
  \<^verbatim>\<open>rnkrbnqb\<close>.
\<close>

theorem random960Position_back_ranks_witness:
  "random960Position (1 / 2) (3 / 4) (5 / 6) (1 / 5) (99 / 100)
     = ''rnkrbnqb/pppppppp/8/8/8/8/PPPPPPPP/RNKRBNQB w KQkq - 0 1''
   \<and> back_ranks_ok (random960Position (1 / 2) (3 / 4) (5 / 6) (1 / 5) (99 / 100))"
proof -
  have "random960Position (1 / 2) (3 / 4) (5 / 6) (1 / 5) (99 / 100)
          = ''rnkrbnqb/pppppppp/8/8/8/8/PPPPPPPP/RNKRBNQB w KQkq - 0 1''"
    by code_simp
  moreover have "back_ranks_ok (random960Position (1 / 2) (3 / 4) (5 / 6) (1 / 5) (99 / 100))"
    using random960Position_back_ranks [of "1 / 2" "3 / 4" "5 / 6" "1 / 5" "99 / 100"] by simp
  ultimately show ?thesis by simp
qed

section \<open>Properties of the engine wrappers\<close>

lemma stop_is_no_position: "\<not> is_position ''stop''"
  by (simp add: is_position_def starts_with_def)

lemma stop_guard_iff:
  "stop_guard seen cmds =
     (\<forall>j<length cmds. is_position (cmds ! j) \<longrightarrow> seen \<or> (\<exists>i<j. cmds ! i = ''stop''))"
proof (induction cmds arbitrary: seen)
  case Nil
  show ?case by simp
next
  case (Cons cmd cmds)
  show ?case
  proof (cases "cmd = ''stop''")
    case True
    then show ?thesis
      using stop_is_no_position
      by (auto simp: Cons.IH All_less_Suc2 Ex_less_Suc2)
  next
    case False
    then show ?thesis
      by (auto simp: Cons.IH All_less_Suc2 Ex_less_Suc2)
  qed
qed

text \<open>
  The order of commands that \<open>stop_before_position\<close> computes, said with positions: every
  position command of the list has a \<^verbatim>\<open>stop\<close> somewhere before it.
\<close>

lemma stop_before_position_iff:
  "stop_before_position cmds =
     (\<forall>j<length cmds. is_position (cmds ! j) \<longrightarrow> (\<exists>i<j. cmds ! i = ''stop''))"
  by (simp add: stop_before_position_def stop_guard_iff)

lemma worker_send: "worker (send cmd e) = map_option (\<lambda>posted. posted @ [cmd]) (worker e)"
  by (simp add: send_def split: option.splits)

lemma send_fields:
  "promises (send cmd e) = promises e" "timers (send cmd e) = timers e"
  "onBestMove (send cmd e) = onBestMove e" "onAnalysis (send cmd e) = onAnalysis e"
  "analysisCalls (send cmd e) = analysisCalls e" "bestMoveCalls (send cmd e) = bestMoveCalls e"
  by (simp_all add: send_def split: option.splits)

lemma is_position_position: "is_position (''position fen '' @ fen)"
  by (simp add: is_position_def starts_with_def)

lemma not_position_go: "\<not> is_position (''go depth '' @ x)"
  by (simp add: is_position_def starts_with_def)

lemma not_position_setoption: "\<not> is_position (''setoption name Skill Level value '' @ x)"
  by (simp add: is_position_def starts_with_def)

lemma analyze_commands:
  assumes "worker e = Some posted"
  shows "\<exists>e'. analyze fen depth e = Inr e'
           \<and> commands_sent (worker e) (worker e')
               = [''stop'', ''position fen '' @ fen,
                  ''go depth '' @ show_int (case depth of None \<Rightarrow> 20 | Some d \<Rightarrow> d)]"
  using assms by (simp add: analyze_def worker_send commands_sent_def)

lemma analyze_no_worker:
  assumes "worker e = None"
  shows "\<exists>e'. analyze fen depth e = Inr e' \<and> worker e' = None"
  using assms
  by (auto simp: analyze_def call_onAnalysis_def fallbackEval_returns split: option.splits)

lemma findBestMove_commands:
  assumes "worker e = Some posted"
  shows "commands_sent (worker e) (worker (snd (findBestMove fen depth skill e)))
           = [''stop'',
              ''setoption name Skill Level value '' @ show_int (case skill of None \<Rightarrow> 20 | Some l \<Rightarrow> l),
              ''position fen '' @ fen,
              ''go depth '' @ show_int (case depth of None \<Rightarrow> 12 | Some d \<Rightarrow> d)]"
  using assms
  by (simp add: findBestMove_def Let_def setSkillLevel_def worker_send commands_sent_def)

lemma findBestMove_no_worker:
  assumes "worker e = None"
  shows "worker (snd (findBestMove fen depth skill e)) = None"
  using assms by (simp add: findBestMove_def Let_def resolve_def)

lemma start_commands:
  assumes "p_worker pe = Some posted" "p_ready pe"
  shows "commands_sent (p_worker pe) (p_worker (start fen depth skillLevel onMove pe))
           = [''setoption name Skill Level value '' @ show_int skillLevel,
              ''position fen '' @ fen, ''go depth '' @ show_int depth]"
  using assms by (simp add: start_def commands_sent_def)

lemma commands_sent_same: "commands_sent w w = []"
  by (cases w) (simp_all add: commands_sent_def)

lemma start_idle:
  assumes "p_worker pe = None \<or> \<not> p_ready pe"
  shows "start fen depth skillLevel onMove pe = pe"
  using assms by (auto simp: start_def split: option.splits)

text \<open>
  C3, as amended. \<^verbatim>\<open>analyze\<close> and \<^verbatim>\<open>findBestMove\<close>, the methods of the engine of
  \<^verbatim>\<open>lib/stockfish.ts\<close>, send \<^verbatim>\<open>stop\<close> before the position command of the new request:
  with a worker they post \<^verbatim>\<open>stop\<close>, \<^verbatim>\<open>position fen ...\<close>, \<^verbatim>\<open>go depth ...\<close> (after
  \<^verbatim>\<open>stop\<close>, \<^verbatim>\<open>findBestMove\<close> also sets the skill level), and without a worker they
  post nothing. \<^verbatim>\<open>start\<close>, the method of the page's engine, posts no \<^verbatim>\<open>stop\<close>: when
  the engine is ready its request is the skill level, the position and \<^verbatim>\<open>go depth ...\<close>,
  and otherwise it posts nothing.
\<close>

theorem requests_stop_before_position:
  "(\<forall>posted. worker e = Some posted \<longrightarrow>
      (\<exists>e'. analyze fen depth e = Inr e'
         \<and> commands_sent (worker e) (worker e')
             = [''stop'', ''position fen '' @ fen,
                ''go depth '' @ show_int (case depth of None \<Rightarrow> 20 | Some d \<Rightarrow> d)])
      \<and> commands_sent (worker e) (worker (snd (findBestMove fen depth skill e)))
           = [''stop'',
              ''setoption name Skill Level value '' @ show_int (case skill of None \<Rightarrow> 20 | Some l \<Rightarrow> l),
              ''position fen '' @ fen,
              ''go depth '' @ show_int (case depth of None \<Rightarrow> 12 | Some d \<Rightarrow> d)])
   \<and> (\<forall>e'. analyze fen depth e = Inr e' \<longrightarrow>
         stop_before_position (commands_sent (worker e) (worker e')))
   \<and> stop_before_position (commands_sent (worker e) (worker (snd (findBestMove fen depth skill e))))
   \<and> (\<forall>posted. p_worker pe = Some posted \<and> p_ready pe \<longrightarrow>
         commands_sent (p_worker pe) (p_worker (start fen' depth' skillLevel onMove pe))
           = [''setoption name Skill Level value '' @ show_int skillLevel,
              ''position fen '' @ fen', ''go depth '' @ show_int depth'])
   \<and> ''stop'' \<notin> set (commands_sent (p_worker pe) (p_worker (start fen' depth' skillLevel onMove pe)))
   \<and> (worker e = None \<longrightarrow>
         (\<exists>e'. analyze fen depth e = Inr e' \<and> worker e' = None)
         \<and> worker (snd (findBestMove fen depth skill e)) = None)
   \<and> (p_worker pe = None \<or> \<not> p_ready pe \<longrightarrow> start fen' depth' skillLevel onMove pe = pe)"
proof (intro conjI allI impI)
  fix posted assume w: "worker e = Some posted"
  show "\<exists>e'. analyze fen depth e = Inr e'
         \<and> commands_sent (worker e) (worker e')
             = [''stop'', ''position fen '' @ fen,
                ''go depth '' @ show_int (case depth of None \<Rightarrow> 20 | Some d \<Rightarrow> d)]"
    by (rule analyze_commands [OF w])
  show "commands_sent (worker e) (worker (snd (findBestMove fen depth skill e)))
           = [''stop'',
              ''setoption name Skill Level value '' @ show_int (case skill of None \<Rightarrow> 20 | Some l \<Rightarrow> l),
              ''position fen '' @ fen,
              ''go depth '' @ show_int (case depth of None \<Rightarrow> 12 | Some d \<Rightarrow> d)]"
    by (rule findBestMove_commands [OF w])
next
  fix e' assume a: "analyze fen depth e = Inr e'"
  show "stop_before_position (commands_sent (worker e) (worker e'))"
  proof (cases "worker e")
    case None
    then show ?thesis by (simp add: commands_sent_def stop_before_position_def)
  next
    case (Some posted)
    from analyze_commands [OF Some, of fen depth] a show ?thesis
      by (auto simp: stop_before_position_def is_position_position not_position_go)
  qed
next
  show "stop_before_position (commands_sent (worker e) (worker (snd (findBestMove fen depth skill e))))"
  proof (cases "worker e")
    case None
    then show ?thesis by (simp add: commands_sent_def stop_before_position_def)
  next
    case (Some posted)
    show ?thesis
      unfolding findBestMove_commands [OF Some]
      by (simp add: stop_before_position_def is_position_position not_position_go
          not_position_setoption)
  qed
next
  fix posted assume "p_worker pe = Some posted \<and> p_ready pe"
  then show "commands_sent (p_worker pe) (p_worker (start fen' depth' skillLevel onMove pe))
           = [''setoption name Skill Level value '' @ show_int skillLevel,
              ''position fen '' @ fen', ''go depth '' @ show_int depth']"
    using start_commands by blast
next
  show "''stop'' \<notin> set (commands_sent (p_worker pe) (p_worker (start fen' depth' skillLevel onMove pe)))"
  proof (cases "p_worker pe = None \<or> \<not> p_ready pe")
    case True
    then have "start fen' depth' skillLevel onMove pe = pe" by (rule start_idle)
    then show ?thesis by (simp add: commands_sent_same)
  next
    case False
    then obtain posted where "p_worker pe = Some posted" "p_ready pe" by auto
    from start_commands [OF this] show ?thesis by simp
  qed
next
  assume w: "worker e = None"
  show "\<exists>e'. analyze fen depth e = Inr e' \<and> worker e' = None"
    by (rule analyze_no_worker [OF w])
  show "worker (snd (findBestMove fen depth skill e)) = None"
    by (rule findBestMove_no_worker [OF w])
next
  assume "p_worker pe = None \<or> \<not> p_ready pe"
  then show "start fen' depth' skillLevel onMove pe = pe" by (rule start_idle)
qed

lemma show_int_0: "show_int 0 = ''0''"
  by code_simp

lemma show_int_10: "show_int 10 = ''10''"
  by code_simp

lemma show_int_12: "show_int 12 = ''12''"
  by code_simp

lemma show_int_20: "show_int 20 = ''20''"
  by code_simp

text \<open>
  C3 as stated fails for \<^verbatim>\<open>start\<close>: on a ready engine, a request for the starting position
  at depth 10 and skill 0 begins with the skill level and never sends \<^verbatim>\<open>stop\<close>.
\<close>

theorem start_without_stop_counterexample:
  "commands_sent (p_worker ready_page_engine)
     (p_worker (start start_fen 10 0 keep_move ready_page_engine))
     = [''setoption name Skill Level value 0'',
        ''position fen rnbqkbnr/pppppppp/8/8/8/8/PPPPPPPP/RNBQKBNR w KQkq - 0 1'',
        ''go depth 10'']
   \<and> \<not> stop_before_position
         (commands_sent (p_worker ready_page_engine)
            (p_worker (start start_fen 10 0 keep_move ready_page_engine)))"
proof -
  have c: "commands_sent (p_worker ready_page_engine)
             (p_worker (start start_fen 10 0 keep_move ready_page_engine))
             = [''setoption name Skill Level value 0'',
                ''position fen rnbqkbnr/pppppppp/8/8/8/8/PPPPPPPP/RNBQKBNR w KQkq - 0 1'',
                ''go depth 10'']"
    by (simp add: start_def commands_sent_def ready_page_engine_def start_fen_def
        show_int_0 show_int_10)
  show ?thesis
    unfolding c by (simp add: stop_before_position_def is_position_def starts_with_def)
qed

text \<open>
  The amended statement on a fresh engine with a worker and on the ready engine of the page.
\<close>

theorem requests_stop_before_position_witness:
  "worker fresh_engine = Some []
   \<and> analyze ''8/8/8/8/8/8/8/K1k5 w - - 0 1'' None fresh_engine
       = Inr (fresh_engine\<lparr>worker :=
                Some [''stop'', ''position fen 8/8/8/8/8/8/8/K1k5 w - - 0 1'', ''go depth 20'']\<rparr>)
   \<and> stop_before_position
        (commands_sent (worker fresh_engine)
           (worker (snd (findBestMove ''8/8/8/8/8/8/8/K1k5 w - - 0 1'' None None fresh_engine))))
   \<and> commands_sent (worker fresh_engine)
        (worker (snd (findBestMove ''8/8/8/8/8/8/8/K1k5 w - - 0 1'' None None fresh_engine)))
       = [''stop'', ''setoption name Skill Level value 20'',
          ''position fen 8/8/8/8/8/8/8/K1k5 w - - 0 1'', ''go depth 12'']"
proof -
  have w: "worker fresh_engine = Some []" by (simp add: fresh_engine_def)
  have a: "analyze ''8/8/8/8/8/8/8/K1k5 w - - 0 1'' None fresh_engine
       = Inr (fresh_engine\<lparr>worker :=
                Some [''stop'', ''position fen 8/8/8/8/8/8/8/K1k5 w - - 0 1'', ''go depth 20'']\<rparr>)"
    by (simp add: analyze_def send_def fresh_engine_def show_int_20)
  show ?thesis
    using requests_stop_before_position
      [of fresh_engine "''8/8/8/8/8/8/8/K1k5 w - - 0 1''" None None
          ready_page_engine start_fen 10 0 keep_move]
    by (simp add: w a show_int_12 show_int_20 stop_before_position_def is_position_def
        starts_with_def)
qed

lemma resolve_fields:
  "timers (resolve k v e) = timers e" "worker (resolve k v e) = worker e"
  "bestMoveCalls (resolve k v e) = bestMoveCalls e" "onBestMove (resolve k v e) = onBestMove e"
  "analysisCalls (resolve k v e) = analysisCalls e"
  by (simp_all add: resolve_def)

lemma resolve_pending:
  "k < length (promises e) \<Longrightarrow> promises e ! k = Pending \<Longrightarrow>
     promises (resolve k v e) = (promises e)[k := Resolved v]"
  by (simp add: resolve_def)

lemma call_onAnalysis_fields:
  "promises (call_onAnalysis r e) = promises e" "timers (call_onAnalysis r e) = timers e"
  "worker (call_onAnalysis r e) = worker e" "bestMoveCalls (call_onAnalysis r e) = bestMoveCalls e"
  "onBestMove (call_onAnalysis r e) = onBestMove e"
  by (simp_all add: call_onAnalysis_def split: option.splits)

lemma parse_info_fields:
  "promises (parse_info msg e) = promises e" "timers (parse_info msg e) = timers e"
  "worker (parse_info msg e) = worker e" "bestMoveCalls (parse_info msg e) = bestMoveCalls e"
  "onBestMove (parse_info msg e) = onBestMove e"
  by (simp_all add: parse_info_def Let_def call_onAnalysis_fields split: option.splits)

lemma parse_bestmove_no_answer: "\<not> answers msg \<Longrightarrow> parse_bestmove msg e = e"
  by (auto simp: parse_bestmove_def answers_def Let_def split: option.splits)

lemma parse_bestmove_answer:
  "answers msg \<Longrightarrow>
     \<exists>m. m \<noteq> [] \<and> m \<noteq> ''(none)'' \<and> js_index (split_on CHR '' '' msg) 1 = Some m
         \<and> parse_bestmove msg e = call_onBestMove m e"
  by (auto simp: parse_bestmove_def answers_def Let_def split: option.splits)

lemma bestMoveCalls_call_onBestMove:
  "bestMoveCalls (call_onBestMove m e) = bestMoveCalls e
   \<or> bestMoveCalls (call_onBestMove m e) = bestMoveCalls e @ [m]"
  by (auto simp: call_onBestMove_def resolve_fields split: option.splits best_callback.splits)

lemma handleMessage_no_answer:
  assumes "\<not> answers msg"
  shows "promises (handleMessage msg e) = promises e \<and> timers (handleMessage msg e) = timers e
         \<and> bestMoveCalls (handleMessage msg e) = bestMoveCalls e"
  using assms by (simp add: handleMessage_def parse_bestmove_no_answer parse_info_fields)

lemma receive_all_no_answer:
  assumes "\<forall>msg\<in>set msgs. \<not> answers msg"
  shows "promises (receive_all msgs e) = promises e \<and> timers (receive_all msgs e) = timers e"
  using assms
proof (induction msgs arbitrary: e)
  case Nil
  show ?case by simp
next
  case (Cons msg msgs)
  then have "\<not> answers msg" "\<forall>m\<in>set msgs. \<not> answers m" by simp_all
  from Cons.IH [OF this(2), of "handleMessage msg e"] handleMessage_no_answer [OF this(1), of e]
  show ?case by simp
qed

lemma js_index_append_length: "js_index (xs @ [x]) (length xs) = Some x"
  by (induction xs) simp_all

lemma findBestMove_no_worker_promise:
  assumes "worker e = None"
  shows "findBestMove fen depth skill e
           = (length (promises e), e\<lparr>promises := promises e @ [Resolved None]\<rparr>)"
  using assms by (simp add: findBestMove_def Let_def resolve_def)

lemma findBestMove_pending:
  assumes "worker e = Some posted"
  shows "fst (findBestMove fen depth skill e) = length (promises e)"
    and "promises (snd (findBestMove fen depth skill e)) = promises e @ [Pending]"
    and "timers (snd (findBestMove fen depth skill e))
           = timers e @ [(10000, length (promises e))]"
  using assms
  by (simp_all add: findBestMove_def Let_def setSkillLevel_def send_fields)

lemma analyze_fallback:
  assumes "worker e = None" "onAnalysis e = Some cb"
  shows "analyze fen depth e =
           Inr (e\<lparr>analysisCalls := analysisCalls e @
                  [(cb, \<lparr>a_depth = (case depth of None \<Rightarrow> 20 | Some d \<Rightarrow> d),
                         a_score = Some (score_loop fallback_values (placement_field fen) 0),
                         a_mate = None, a_bestMove = None, a_pv = []\<rparr>)]\<rparr>)"
  using assms by (simp add: analyze_def call_onAnalysis_def fallbackEval_returns)

lemma analyze_no_callback:
  assumes "worker e = None" "onAnalysis e = None"
  shows "analyze fen depth e = Inr e"
  using assms by (simp add: analyze_def)

lemma timeout_resolves_null:
  assumes p: "promises e2 = ps @ [Pending]" and t: "timers e2 = ts @ [(10000, length ps)]"
  shows "promises (timer_fires (length ts) e2) ! length ps = Resolved None"
proof -
  have "js_index (timers e2) (length ts) = Some (10000, length ps)"
    unfolding t by (rule js_index_append_length)
  then have "timer_fires (length ts) e2 =
               resolve (length ps) None
                 (e2\<lparr>timers := take (length ts) (timers e2) @ drop (Suc (length ts)) (timers e2)\<rparr>)"
    by (simp add: timer_fires_def)
  then show ?thesis using p by (simp add: resolve_def)
qed

text \<open>
  C7. When the worker is \<^verbatim>\<open>null\<close>, \<^verbatim>\<open>analyze\<close> returns without raising and posts
  nothing; if an analysis callback is set it is called once, with the requested depth
  (20 by default), the score \<^verbatim>\<open>fallbackEval(fen)\<close>, no mate, no best move and an empty
  line, and if none is set nothing changes; \<^verbatim>\<open>findBestMove\<close> returns a promise that is
  resolved with \<^verbatim>\<open>null\<close> at once. With a worker, \<^verbatim>\<open>findBestMove\<close> returns a pending
  promise and sets a timer of 10000 milliseconds; if every message that arrives before the
  timer runs is no answer (no \<^verbatim>\<open>bestmove\<close> line with a move), the promise is still
  pending then and the timer resolves it with \<^verbatim>\<open>null\<close>.
\<close>

theorem engine_unavailable_falls_back:
  "(worker e = None \<longrightarrow>
      (\<exists>e'. analyze fen depth e = Inr e' \<and> worker e' = None
         \<and> (onAnalysis e = None \<longrightarrow> e' = e)
         \<and> (\<forall>cb. onAnalysis e = Some cb \<longrightarrow>
               (\<exists>s. fallbackEval fen = Inr s
                  \<and> e' = e\<lparr>analysisCalls := analysisCalls e @
                         [(cb, \<lparr>a_depth = (case depth of None \<Rightarrow> 20 | Some d \<Rightarrow> d),
                                a_score = Some s, a_mate = None, a_bestMove = None,
                                a_pv = []\<rparr>)]\<rparr>)))
      \<and> findBestMove fen depth' skill e
          = (length (promises e), e\<lparr>promises := promises e @ [Resolved None]\<rparr>))
   \<and> (\<forall>posted. worker e = Some posted \<and> (\<forall>msg\<in>set msgs. \<not> answers msg) \<longrightarrow>
         fst (findBestMove fen depth' skill e) = length (promises e)
         \<and> promises (snd (findBestMove fen depth' skill e)) ! length (promises e) = Pending
         \<and> timers (snd (findBestMove fen depth' skill e)) = timers e @ [(10000, length (promises e))]
         \<and> promises (receive_all msgs (snd (findBestMove fen depth' skill e))) ! length (promises e)
             = Pending
         \<and> promises (timer_fires (length (timers e))
               (receive_all msgs (snd (findBestMove fen depth' skill e)))) ! length (promises e)
             = Resolved None)"
proof (intro conjI allI impI)
  assume w: "worker e = None"
  show "\<exists>e'. analyze fen depth e = Inr e' \<and> worker e' = None
         \<and> (onAnalysis e = None \<longrightarrow> e' = e)
         \<and> (\<forall>cb. onAnalysis e = Some cb \<longrightarrow>
               (\<exists>s. fallbackEval fen = Inr s
                  \<and> e' = e\<lparr>analysisCalls := analysisCalls e @
                         [(cb, \<lparr>a_depth = (case depth of None \<Rightarrow> 20 | Some d \<Rightarrow> d),
                                a_score = Some s, a_mate = None, a_bestMove = None,
                                a_pv = []\<rparr>)]\<rparr>))"
  proof (cases "onAnalysis e")
    case None
    then show ?thesis using w analyze_no_callback [OF w None] by simp
  next
    case (Some cb)
    then show ?thesis
      using w analyze_fallback [OF w Some, of fen depth] by (simp add: fallbackEval_returns)
  qed
  show "findBestMove fen depth' skill e
          = (length (promises e), e\<lparr>promises := promises e @ [Resolved None]\<rparr>)"
    by (rule findBestMove_no_worker_promise [OF w])
next
  fix posted
  assume a: "worker e = Some posted \<and> (\<forall>msg\<in>set msgs. \<not> answers msg)"
  then have w: "worker e = Some posted" and quiet: "\<forall>msg\<in>set msgs. \<not> answers msg"
    by simp_all
  let ?e1 = "snd (findBestMove fen depth' skill e)"
  note fb = findBestMove_pending [OF w, of fen depth' skill]
  show "fst (findBestMove fen depth' skill e) = length (promises e)" by (rule fb(1))
  show "promises ?e1 ! length (promises e) = Pending" unfolding fb(2) by simp
  show "timers ?e1 = timers e @ [(10000, length (promises e))]" by (rule fb(3))
  from receive_all_no_answer [OF quiet, of ?e1]
  have r: "promises (receive_all msgs ?e1) = promises e @ [Pending]"
    "timers (receive_all msgs ?e1) = timers e @ [(10000, length (promises e))]"
    unfolding fb(2,3) by simp_all
  show "promises (receive_all msgs ?e1) ! length (promises e) = Pending"
    unfolding r(1) by simp
  show "promises (timer_fires (length (timers e)) (receive_all msgs ?e1)) ! length (promises e)
          = Resolved None"
    by (rule timeout_resolves_null [OF r])
qed

text \<open>
  The statement on an engine without a worker, and on a fresh engine that receives an
  \<^verbatim>\<open>info\<close> line and \<^verbatim>\<open>bestmove (none)\<close> before its timer runs.
\<close>

theorem engine_unavailable_falls_back_witness:
  "worker (fresh_engine\<lparr>worker := None\<rparr>) = None
   \<and> analyze ''4k3/8/8/8/8/8/8/2B1K3 w - - 0 1'' None (fresh_engine\<lparr>worker := None\<rparr>)
       = Inr (fresh_engine\<lparr>worker := None,
                analysisCalls :=
                  [(0, \<lparr>a_depth = 20, a_score = Some (13 / 4), a_mate = None,
                        a_bestMove = None, a_pv = []\<rparr>)]\<rparr>)
   \<and> findBestMove ''4k3/8/8/8/8/8/8/2B1K3 w - - 0 1'' None None (fresh_engine\<lparr>worker := None\<rparr>)
       = (0, fresh_engine\<lparr>worker := None, promises := [Resolved None]\<rparr>)
   \<and> worker fresh_engine = Some []
   \<and> \<not> answers ''info depth 1 score cp 20 pv e2e4''
   \<and> \<not> answers ''bestmove (none)''
   \<and> promises (timer_fires 0
        (receive_all [''info depth 1 score cp 20 pv e2e4'', ''bestmove (none)'']
           (snd (findBestMove ''4k3/8/8/8/8/8/8/2B1K3 w - - 0 1'' None None fresh_engine)))) ! 0
       = Resolved None"
proof -
  have f: "fallbackEval ''4k3/8/8/8/8/8/8/2B1K3 w - - 0 1'' = Inr (13 / 4)"
    by (simp add: fallbackEval_def fallback_values_def)
  have a: "analyze ''4k3/8/8/8/8/8/8/2B1K3 w - - 0 1'' None (fresh_engine\<lparr>worker := None\<rparr>)
       = Inr (fresh_engine\<lparr>worker := None,
                analysisCalls :=
                  [(0, \<lparr>a_depth = 20, a_score = Some (13 / 4), a_mate = None,
                        a_bestMove = None, a_pv = []\<rparr>)]\<rparr>)"
    by (simp add: analyze_def call_onAnalysis_def f fresh_engine_def)
  have q: "\<not> answers ''info depth 1 score cp 20 pv e2e4''" "\<not> answers ''bestmove (none)''"
    by (simp_all add: answers_def starts_with_def)
  have e: "worker fresh_engine = Some []" "promises fresh_engine = []" "timers fresh_engine = []"
    by (simp_all add: fresh_engine_def)
  show ?thesis
    using engine_unavailable_falls_back
      [of "fresh_engine\<lparr>worker := None\<rparr>" "''4k3/8/8/8/8/8/8/2B1K3 w - - 0 1''" None None None "[]"]
      engine_unavailable_falls_back
      [of fresh_engine "''4k3/8/8/8/8/8/8/2B1K3 w - - 0 1''" None None None
          "[''info depth 1 score cp 20 pv e2e4'', ''bestmove (none)'']"]
    by (simp add: a q e)
qed

lemma handleMessage_calls:
  "bestMoveCalls (handleMessage msg e) = bestMoveCalls e
   \<or> (\<exists>m. m \<noteq> [] \<and> m \<noteq> ''(none)'' \<and> answers msg
          \<and> js_index (split_on CHR '' '' msg) 1 = Some m
          \<and> bestMoveCalls (handleMessage msg e) = bestMoveCalls e @ [m])"
proof (cases "answers msg")
  case False
  then show ?thesis using handleMessage_no_answer [of msg e] by simp
next
  case True
  from parse_bestmove_answer [OF True, of "parse_info msg e"] obtain m where
    m: "m \<noteq> []" "m \<noteq> ''(none)''" "js_index (split_on CHR '' '' msg) 1 = Some m"
       "parse_bestmove msg (parse_info msg e) = call_onBestMove m (parse_info msg e)"
    by blast
  from bestMoveCalls_call_onBestMove [of m "parse_info msg e"]
  show ?thesis
    using m True by (auto simp: handleMessage_def parse_info_fields)
qed

lemma none_is_no_answer: "\<not> answers ''bestmove (none)''"
  by (simp add: answers_def starts_with_def)

lemma handleMessage_none: "handleMessage ''bestmove (none)'' e = e"
proof -
  have "parse_info ''bestmove (none)'' e = e"
    by (simp add: parse_info_def starts_with_def)
  then show ?thesis
    by (simp add: handleMessage_def parse_bestmove_no_answer [OF none_is_no_answer])
qed

lemma start_handler_world:
  "snd (start_handler onMove msg (pe, w)) = w
   \<or> (\<exists>m. m \<noteq> [] \<and> m \<noteq> ''(none)'' \<and> answers msg
          \<and> snd (start_handler onMove msg (pe, w)) = onMove m w)"
  by (auto simp: start_handler_def answers_def Let_def split: option.splits)

lemma start_handler_no_answer:
  "\<not> answers msg \<Longrightarrow> snd (start_handler onMove msg (pe, w)) = w"
  by (auto simp: start_handler_def answers_def Let_def split: option.splits)

lemma onmessage_world:
  "snd (onmessage msg (pe, w)) = w
   \<or> (\<exists>m onMove. m \<noteq> [] \<and> m \<noteq> ''(none)'' \<and> answers msg
          \<and> messageHandler pe = Some onMove \<and> snd (onmessage msg (pe, w)) = onMove m w)"
proof (cases "messageHandler pe")
  case None
  then show ?thesis by (simp add: onmessage_def Let_def)
next
  case (Some onMove)
  define pe1 where "pe1 =
    (if js_includes ''uciok'' msg \<and> \<not> p_ready pe then
       (if resolveReady pe
        then pe\<lparr>p_ready := True, resolveReady := False,
                initResult := (case initResult pe of None \<Rightarrow> Some True | Some r \<Rightarrow> Some r)\<rparr>
        else pe\<lparr>p_ready := True\<rparr>)
     else pe)"
  have h: "messageHandler pe1 = Some onMove" using Some by (simp add: pe1_def)
  have "onmessage msg (pe, w) = start_handler onMove msg (pe1, w)"
    using h by (simp add: onmessage_def Let_def pe1_def [symmetric])
  then show ?thesis using start_handler_world [of onMove msg pe1 w] Some by auto
qed

lemma onmessage_no_answer: "\<not> answers msg \<Longrightarrow> snd (onmessage msg (pe, w)) = w"
  using onmessage_world [of msg pe w] by auto

text \<open>
  C8. Handling one message, either engine calls its best-move callback at most once, and
  only with the second word of an answering \<^verbatim>\<open>bestmove\<close> line, a text that is neither
  empty nor \<^verbatim>\<open>(none)\<close>: this holds for \<^verbatim>\<open>handleMessage\<close> and its callback
  \<^verbatim>\<open>onBestMove\<close>, and for the handler of \<^verbatim>\<open>start\<close> and its callback \<^verbatim>\<open>onMove\<close>. On
  \<^verbatim>\<open>bestmove (none)\<close> the first engine changes nothing at all and the second calls
  nothing. \<^verbatim>\<open>handleBotMove\<close>, given the empty move, sets \<^verbatim>\<open>botThinking\<close> to false and
  nothing else.
\<close>

theorem best_move_callbacks_get_moves:
  "(bestMoveCalls (handleMessage msg e) = bestMoveCalls e
    \<or> (\<exists>m. m \<noteq> [] \<and> m \<noteq> ''(none)'' \<and> answers msg
           \<and> js_index (split_on CHR '' '' msg) 1 = Some m
           \<and> bestMoveCalls (handleMessage msg e) = bestMoveCalls e @ [m]))
   \<and> handleMessage ''bestmove (none)'' e = e
   \<and> (snd (onmessage msg (pe, w)) = w
      \<or> (\<exists>m onMove. m \<noteq> [] \<and> m \<noteq> ''(none)'' \<and> answers msg
             \<and> messageHandler pe = Some onMove \<and> snd (onmessage msg (pe, w)) = onMove m w))
   \<and> snd (onmessage ''bestmove (none)'' (pe, w)) = w
   \<and> handleBotMove lib [] s = s\<lparr>botThinking := False\<rparr>"
proof (intro conjI)
  show "bestMoveCalls (handleMessage msg e) = bestMoveCalls e
    \<or> (\<exists>m. m \<noteq> [] \<and> m \<noteq> ''(none)'' \<and> answers msg
           \<and> js_index (split_on CHR '' '' msg) 1 = Some m
           \<and> bestMoveCalls (handleMessage msg e) = bestMoveCalls e @ [m])"
    by (rule handleMessage_calls)
  show "handleMessage ''bestmove (none)'' e = e" by (rule handleMessage_none)
  show "snd (onmessage msg (pe, w)) = w
      \<or> (\<exists>m onMove. m \<noteq> [] \<and> m \<noteq> ''(none)'' \<and> answers msg
             \<and> messageHandler pe = Some onMove \<and> snd (onmessage msg (pe, w)) = onMove m w)"
    by (rule onmessage_world)
  show "snd (onmessage ''bestmove (none)'' (pe, w)) = w"
    by (rule onmessage_no_answer [OF none_is_no_answer])
  show "handleBotMove lib [] s = s\<lparr>botThinking := False\<rparr>"
    by (simp add: handleBotMove_def)
qed

text \<open>
  The statement on the engines after a request for the starting position, for the reply
  \<^verbatim>\<open>bestmove e2e4 ponder e7e5\<close>.
\<close>

theorem best_move_callbacks_get_moves_witness:
  "answers ''bestmove e2e4 ponder e7e5''
   \<and> bestMoveCalls (handleMessage ''bestmove e2e4 ponder e7e5''
        (snd (findBestMove start_fen None None fresh_engine))) = [''e2e4'']
   \<and> handleMessage ''bestmove (none)'' (snd (findBestMove start_fen None None fresh_engine))
       = snd (findBestMove start_fen None None fresh_engine)
   \<and> snd (onmessage ''bestmove e2e4 ponder e7e5''
        (start start_fen 10 0 keep_move ready_page_engine, [])) = [''e2e4'']
   \<and> snd (onmessage ''bestmove (none)''
        (start start_fen 10 0 keep_move ready_page_engine, [])) = []
   \<and> handleBotMove opening_lib [] (start_page\<lparr>botThinking := True\<rparr>) = start_page"
proof -
  have a: "answers ''bestmove e2e4 ponder e7e5''"
    by (simp add: answers_def starts_with_def)
  have i: "parse_info ''bestmove e2e4 ponder e7e5'' e = e" for e :: "nat engine"
    by (simp add: parse_info_def starts_with_def)
  have b: "bestMoveCalls (handleMessage ''bestmove e2e4 ponder e7e5''
        (snd (findBestMove start_fen None None fresh_engine))) = [''e2e4'']"
    by (simp add: handleMessage_def i parse_bestmove_def starts_with_def call_onBestMove_def
        findBestMove_def Let_def fresh_engine_def setSkillLevel_def send_def resolve_def)
  have h: "messageHandler (start start_fen 10 0 keep_move ready_page_engine) = Some keep_move"
    by (simp add: start_def ready_page_engine_def)
  have o: "snd (onmessage ''bestmove e2e4 ponder e7e5''
        (start start_fen 10 0 keep_move ready_page_engine, [])) = [''e2e4'']"
    by (simp add: onmessage_def Let_def h start_handler_def starts_with_def keep_move_def)
  have p: "start_page\<lparr>botThinking := True, botThinking := False\<rparr> = start_page"
    by (simp add: start_page_def)
  show ?thesis
    using best_move_callbacks_get_moves
      [of "''bestmove e2e4 ponder e7e5''" "snd (findBestMove start_fen None None fresh_engine)"
          "start start_fen 10 0 keep_move ready_page_engine" "[]" opening_lib
          "start_page\<lparr>botThinking := True\<rparr>"]
    by (simp add: a b o p)
qed

section \<open>Properties of the move handlers and of the board\<close>

lemma handleMove_not_playing:
  "gameStatus s \<noteq> Playing \<Longrightarrow> handleMove lib from to promotion s = Inr (False, s)"
  by (simp add: handleMove_def)

lemma handleMove_playing:
  assumes "gameStatus s = Playing"
  shows "handleMove lib from to promotion s =
     (case lib_move lib (new_Chess lib (lib_fen lib (game s)))
             (ObjMove from to (promotion_or_q promotion)) of
        Raised \<Rightarrow> Inl LibraryError
      | Null \<Rightarrow> Inr (False, s)
      | Moved newGame' san \<Rightarrow>
          Inr (True, s\<lparr>game := newGame', lastMove := Some (from, to),
                       moveList := moveList s @ [san], clockRunning := True\<rparr>))"
  using assms by (simp add: handleMove_def)


lemma handleMove_returns_false:
  "(\<exists>s'. handleMove lib from to promotion s = Inr (False, s'))
     = (gameStatus s \<noteq> Playing
        \<or> lib_move lib (new_Chess lib (lib_fen lib (game s)))
             (ObjMove from to (promotion_or_q promotion)) = Null)"
proof (cases "gameStatus s = Playing")
  case False
  then show ?thesis by (simp add: handleMove_not_playing)
next
  case True
  then show ?thesis
    by (cases "lib_move lib (new_Chess lib (lib_fen lib (game s)))
                 (ObjMove from to (promotion_or_q promotion))")
      (simp_all add: handleMove_playing)
qed



lemma handleSquareClick_unselected:
  "selectedSquare b = None \<or> selectedSquare b = Some [] \<Longrightarrow>
     handleSquareClick lib position orientation onMove square (b, w)
       = Inr (select_square lib position orientation square, w)"
  by (auto simp: handleSquareClick_def)

lemma handleSquareClick_not_target:
  "selectedSquare b = Some sel \<Longrightarrow> square \<notin> set (getLegalMoves lib position sel) \<Longrightarrow>
     handleSquareClick lib position orientation onMove square (b, w)
       = Inr (select_square lib position orientation square, w)"
  by (simp add: handleSquareClick_def)

lemma handleSquareClick_target:
  "selectedSquare b = Some sel \<Longrightarrow> sel \<noteq> [] \<Longrightarrow>
   square \<in> set (getLegalMoves lib position sel) \<Longrightarrow>
     handleSquareClick lib position orientation onMove square (b, w)
       = (case onMove sel square (Some ''q'') w of
            Inl err \<Rightarrow> Inl err
          | Inr (success, w') \<Rightarrow>
              if success then Inr (\<lparr>selectedSquare = None, possibleMoves = []\<rparr>, w')
              else Inr (select_square lib position orientation square, w'))"
  by (simp add: handleSquareClick_def)

lemma select_square_selected:
  "selectedSquare (select_square lib position orientation square) = Some sq \<Longrightarrow>
     sq = square \<and> (\<exists>pc. getPiece lib position square = Some pc \<and> p_color pc = orientation)"
  by (cases orientation) (auto simp: select_square_def split: option.splits if_splits)

lemma handleMove_default_promotion:
  "handleMove lib from to None = handleMove lib from to (Some ''q'')"
  by (rule ext) (simp add: handleMove_def promotion_or_q_def)

lemma handleSquareClick_queen_only:
  "handleSquareClick lib position orientation onMove square st
     = handleSquareClick lib position orientation (\<lambda>from to promotion. onMove from to (Some ''q''))
         square st"
  by (cases st) (simp add: handleSquareClick_def)

lemma recorded_calls:
  "\<exists>b' calls'.
     handleSquareClick lib position orientation (recording_onMove answer) square (b, calls)
       = Inr (b', calls')
     \<and> (calls' = calls \<or> (\<exists>sel. calls' = calls @ [(sel, square, Some ''q'')]))"
proof -
  consider (idle) "selectedSquare b = None \<or> selectedSquare b = Some []"
    | (miss) sel where "selectedSquare b = Some sel"
        "square \<notin> set (getLegalMoves lib position sel)"
    | (hit) sel where "selectedSquare b = Some sel" "sel \<noteq> []"
        "square \<in> set (getLegalMoves lib position sel)"
    by (cases "selectedSquare b") auto
  then show ?thesis
  proof cases
    case idle
    show ?thesis unfolding handleSquareClick_unselected [OF idle] by simp
  next
    case (miss sel)
    show ?thesis unfolding handleSquareClick_not_target [OF miss] by simp
  next
    case (hit sel)
    show ?thesis
      unfolding handleSquareClick_target [OF hit] by (simp add: recording_onMove_def)
  qed
qed

text \<open>
  C9. \<^verbatim>\<open>handleMove\<close> without a promotion does what it does with the promotion \<^verbatim>\<open>'q'\<close>.
  The board passes \<^verbatim>\<open>'q'\<close> in every call of \<^verbatim>\<open>onMove\<close>: a click on the board with
  \<^verbatim>\<open>handleMove\<close> as its \<^verbatim>\<open>onMove\<close> does what it would do if the promotion were left
  out, and every call that a recording callback sees carries \<^verbatim>\<open>'q'\<close>.
\<close>

theorem promotion_defaults_to_queen:
  "handleMove lib from to None s = handleMove lib from to (Some ''q'') s
   \<and> handleSquareClick lib position orientation (handleMove lib) square (b, s)
       = handleSquareClick lib position orientation
           (\<lambda>from to promotion. handleMove lib from to None) square (b, s)
   \<and> (\<exists>b' calls'.
         handleSquareClick lib position orientation (recording_onMove answer) square (b, calls)
           = Inr (b', calls')
         \<and> (\<forall>c \<in> set (drop (length calls) calls'). snd (snd c) = Some ''q''))"
proof (intro conjI)
  show "handleMove lib from to None s = handleMove lib from to (Some ''q'') s"
    by (simp add: handleMove_default_promotion)
  have "handleSquareClick lib position orientation (handleMove lib) square (b, s)
          = handleSquareClick lib position orientation
              (\<lambda>from to promotion. handleMove lib from to (Some ''q'')) square (b, s)"
    by (rule handleSquareClick_queen_only)
  then show "handleSquareClick lib position orientation (handleMove lib) square (b, s)
       = handleSquareClick lib position orientation
           (\<lambda>from to promotion. handleMove lib from to None) square (b, s)"
    by (simp add: handleMove_default_promotion)
  from recorded_calls [of lib position orientation answer square b calls]
  show "\<exists>b' calls'.
         handleSquareClick lib position orientation (recording_onMove answer) square (b, calls)
           = Inr (b', calls')
         \<and> (\<forall>c \<in> set (drop (length calls) calls'). snd (snd c) = Some ''q'')"
    by auto
qed

text \<open>
  The statement for the move e2 to e4 from the starting position.
\<close>

theorem promotion_defaults_to_queen_witness:
  "handleMove opening_lib ''e2'' ''e4'' None start_page
     = handleMove opening_lib ''e2'' ''e4'' (Some ''q'') start_page
   \<and> handleMove opening_lib ''e2'' ''e4'' None start_page
       = Inr (True, start_page\<lparr>game := after_e4_fen, lastMove := Some (''e2'', ''e4''),
                               moveList := [''e4''], clockRunning := True\<rparr>)
   \<and> handleSquareClick opening_lib start_fen White (recording_onMove (\<lambda>from to promotion. True))
        ''e4'' (\<lparr>selectedSquare = Some ''e2'', possibleMoves = [''e3'', ''e4'']\<rparr>, [])
       = Inr (\<lparr>selectedSquare = None, possibleMoves = []\<rparr>, [(''e2'', ''e4'', Some ''q'')])"
proof -
  have m: "handleMove opening_lib ''e2'' ''e4'' None start_page
       = Inr (True, start_page\<lparr>game := after_e4_fen, lastMove := Some (''e2'', ''e4''),
                               moveList := [''e4''], clockRunning := True\<rparr>)"
    by code_simp
  have c: "handleSquareClick opening_lib start_fen White (recording_onMove (\<lambda>from to promotion. True))
        ''e4'' (\<lparr>selectedSquare = Some ''e2'', possibleMoves = [''e3'', ''e4'']\<rparr>, [])
       = Inr (\<lparr>selectedSquare = None, possibleMoves = []\<rparr>, [(''e2'', ''e4'', Some ''q'')])"
    by code_simp
  show ?thesis
    using promotion_defaults_to_queen
      [of opening_lib "''e2''" "''e4''" start_page start_fen White "''e4''"
          "\<lparr>selectedSquare = Some ''e2'', possibleMoves = [''e3'', ''e4'']\<rparr>"
          "\<lambda>from to promotion. True" "[]"]
    by (simp add: m c)
qed

text \<open>
  C10. A click calls \<^verbatim>\<open>onMove\<close> at most once, and only if a square is selected and the
  clicked square is among the legal destinations that the library lists for the selected
  square in the position shown; the call is for these two squares. After the click a
  square is selected only if it is the clicked square and holds a piece of the colour of
  the board's orientation.
\<close>

theorem board_moves_only_from_selection:
  "\<exists>b' calls'.
     handleSquareClick lib position orientation (recording_onMove answer) square (b, calls)
       = Inr (b', calls')
     \<and> (calls' = calls
        \<or> (\<exists>sel. selectedSquare b = Some sel \<and> sel \<noteq> []
               \<and> square \<in> set (getLegalMoves lib position sel)
               \<and> calls' = calls @ [(sel, square, Some ''q'')]))
     \<and> (\<forall>sq. selectedSquare b' = Some sq \<longrightarrow>
           sq = square
           \<and> (\<exists>pc. getPiece lib position square = Some pc \<and> p_color pc = orientation))"
proof -
  consider (idle) "selectedSquare b = None \<or> selectedSquare b = Some []"
    | (miss) sel where "selectedSquare b = Some sel"
        "square \<notin> set (getLegalMoves lib position sel)"
    | (hit) sel where "selectedSquare b = Some sel" "sel \<noteq> []"
        "square \<in> set (getLegalMoves lib position sel)"
    by (cases "selectedSquare b") auto
  then show ?thesis
  proof cases
    case idle
    show ?thesis
      unfolding handleSquareClick_unselected [OF idle]
      using select_square_selected [of lib position orientation square] by auto
  next
    case (miss sel)
    show ?thesis
      unfolding handleSquareClick_not_target [OF miss]
      using select_square_selected [of lib position orientation square] by auto
  next
    case (hit sel)
    show ?thesis
      unfolding handleSquareClick_target [OF hit]
      using select_square_selected [of lib position orientation square] hit
      by (auto simp: recording_onMove_def)
  qed
qed

text \<open>
  The statement at the starting position: with e2 selected a click on e4 calls \<^verbatim>\<open>onMove\<close>;
  a click on e2 selects it for White and not for Black.
\<close>

theorem board_moves_only_from_selection_witness:
  "''e4'' \<in> set (getLegalMoves opening_lib start_fen ''e2'')
   \<and> handleSquareClick opening_lib start_fen White (recording_onMove (\<lambda>from to promotion. False))
        ''e4'' (\<lparr>selectedSquare = Some ''e2'', possibleMoves = [''e3'', ''e4'']\<rparr>, [])
       = Inr (\<lparr>selectedSquare = None, possibleMoves = []\<rparr>, [(''e2'', ''e4'', Some ''q'')])
   \<and> getPiece opening_lib start_fen ''e2'' = Some \<lparr>p_type = ''p'', p_color = White\<rparr>
   \<and> handleSquareClick opening_lib start_fen White (recording_onMove (\<lambda>from to promotion. False))
        ''e2'' (\<lparr>selectedSquare = None, possibleMoves = []\<rparr>, [])
       = Inr (\<lparr>selectedSquare = Some ''e2'', possibleMoves = [''e3'', ''e4'']\<rparr>, [])
   \<and> handleSquareClick opening_lib start_fen Black (recording_onMove (\<lambda>from to promotion. False))
        ''e2'' (\<lparr>selectedSquare = None, possibleMoves = []\<rparr>, [])
       = Inr (\<lparr>selectedSquare = None, possibleMoves = []\<rparr>, [])"
proof -
  have l: "getLegalMoves opening_lib start_fen ''e2'' = [''e3'', ''e4'']"
    by code_simp
  have g2: "getPiece opening_lib start_fen ''e2'' = Some \<lparr>p_type = ''p'', p_color = White\<rparr>"
    by code_simp
  have g4: "getPiece opening_lib start_fen ''e4'' = None"
    by code_simp
  note g = g2 g4
  have c1: "handleSquareClick opening_lib start_fen White (recording_onMove (\<lambda>from to promotion. False))
        ''e4'' (\<lparr>selectedSquare = Some ''e2'', possibleMoves = [''e3'', ''e4'']\<rparr>, [])
       = Inr (\<lparr>selectedSquare = None, possibleMoves = []\<rparr>, [(''e2'', ''e4'', Some ''q'')])"
    by (simp add: handleSquareClick_def l g recording_onMove_def select_square_def)
  have c2: "handleSquareClick opening_lib start_fen ori (recording_onMove (\<lambda>from to promotion. False))
        ''e2'' (\<lparr>selectedSquare = None, possibleMoves = []\<rparr>, [])
       = Inr (if ori = White then \<lparr>selectedSquare = Some ''e2'', possibleMoves = [''e3'', ''e4'']\<rparr>
              else \<lparr>selectedSquare = None, possibleMoves = []\<rparr>, [])" for ori
    by (cases ori) (simp_all add: handleSquareClick_def l g select_square_def)
  show ?thesis
    using board_moves_only_from_selection
      [of opening_lib start_fen White "\<lambda>from to promotion. False" "''e4''"
          "\<lparr>selectedSquare = Some ''e2'', possibleMoves = [''e3'', ''e4'']\<rparr>" "[]"]
    by (simp add: l g c1 c2)
qed

end
